theory Spec2Isabelle
  imports Complex_Main "HOL-Library.Word" "HOL-Library.Sublist"
begin

section \<open>JavaScript values used by the sync routine\<close>

text \<open>
  A JavaScript string is a sequence of UTF-16 code units. ASCII literals of the source
  are written with \<open>lit\<close>; other code units are given by their number
  (the ruble sign is \<open>0x20BD\<close>).
\<close>

type_synonym jchar = "16 word"
type_synonym jstring = "jchar list"

definition lit :: "string \<Rightarrow> jstring" where
  "lit s = map (\<lambda>c. of_nat (of_char c)) s"

text \<open>
  White space as \<open>String.prototype.trim\<close>, \<open>parseInt\<close>, \<open>parseFloat\<close> and the
  regular-expression class \<open>\s\<close> see it: WhiteSpace and LineTerminator of ECMAScript.
\<close>

definition is_ws :: "jchar \<Rightarrow> bool" where
  "is_ws c \<longleftrightarrow>
     (0x09 \<le> c \<and> c \<le> 0x0D) \<or> c = 0x20 \<or> c = 0xA0 \<or> c = 0x1680 \<or>
     (0x2000 \<le> c \<and> c \<le> 0x200A) \<or> c = 0x2028 \<or> c = 0x2029 \<or> c = 0x202F \<or>
     c = 0x205F \<or> c = 0x3000 \<or> c = 0xFEFF"

definition trim :: "jstring \<Rightarrow> jstring" where
  "trim s = rev (dropWhile is_ws (rev (dropWhile is_ws s)))"

definition startsWith :: "jstring \<Rightarrow> jstring \<Rightarrow> bool" where
  "startsWith s p \<longleftrightarrow> take (length p) s = p"

text \<open>
  Numbers. A finite Number is represented by the decimal value it denotes (the value before
  rounding to binary64; negative zero is zero), the other Numbers by themselves. A decimal
  value of magnitude \<open>2^1024 - 2^970\<close> or more rounds to an infinity.
\<close>

datatype number = NaN | PosInfinity | NegInfinity | Finite rat

definition to_Number :: "rat \<Rightarrow> number" where
  "to_Number q =
     (if \<bar>q\<bar> < 2 ^ 1024 - 2 ^ 970 then Finite q
      else if q < 0 then NegInfinity else PosInfinity)"

definition is_digit :: "jchar \<Rightarrow> bool" where
  "is_digit c \<longleftrightarrow> 0x30 \<le> c \<and> c \<le> 0x39"

text \<open>The value of a code unit as a digit in a radix up to 36.\<close>

definition digit_val :: "jchar \<Rightarrow> nat option" where
  "digit_val c =
     (if 0x30 \<le> c \<and> c \<le> 0x39 then Some (unat c - 48)
      else if 0x61 \<le> c \<and> c \<le> 0x7A then Some (unat c - 87)
      else if 0x41 \<le> c \<and> c \<le> 0x5A then Some (unat c - 55)
      else None)"

definition is_radix_digit :: "nat \<Rightarrow> jchar \<Rightarrow> bool" where
  "is_radix_digit R c = (case digit_val c of None \<Rightarrow> False | Some d \<Rightarrow> d < R)"

definition digits_value :: "nat \<Rightarrow> jstring \<Rightarrow> nat" where
  "digits_value R ds = foldl (\<lambda>a c. R * a + the (digit_val c)) 0 ds"

text \<open>
  \<open>parseInt(string)\<close> with no radix argument: leading white space is skipped, a sign is
  read, a \<open>0x\<close> or \<open>0X\<close> prefix selects radix 16, and the longest run of digits is the
  result; no digit gives NaN, which is \<open>None\<close> here. The result is the integer denoted.
\<close>

definition parseInt :: "jstring \<Rightarrow> int option" where
  "parseInt input =
     (let s = dropWhile is_ws input;
          neg = (s \<noteq> [] \<and> hd s = 0x2D);
          s1 = (if s \<noteq> [] \<and> (hd s = 0x2B \<or> hd s = 0x2D) then tl s else s);
          hex = (startsWith s1 (lit ''0x'') \<or> startsWith s1 (lit ''0X''));
          R = (if hex then 16 else 10);
          s2 = (if hex then drop 2 s1 else s1);
          z = takeWhile (is_radix_digit R) s2
      in if z = [] then None
         else Some (if neg then - int (digits_value R z) else int (digits_value R z)))"

text \<open>
  \<open>parseFloat(string)\<close>: leading white space is skipped and the longest prefix that is a
  StrDecimalLiteral is read: a sign, then \<open>Infinity\<close> or digits with an optional fraction
  and an optional exponent. No such prefix gives NaN.
\<close>

definition exponent_part :: "jstring \<Rightarrow> int" where
  "exponent_part s =
     (case s of
        [] \<Rightarrow> 0
      | c # r \<Rightarrow>
          if c = 0x65 \<or> c = 0x45 then
            (let neg = (r \<noteq> [] \<and> hd r = 0x2D);
                 r1 = (if r \<noteq> [] \<and> (hd r = 0x2B \<or> hd r = 0x2D) then tl r else r);
                 ds = takeWhile is_digit r1
             in if ds = [] then 0
                else if neg then - int (digits_value 10 ds) else int (digits_value 10 ds))
          else 0)"

definition scale10 :: "rat \<Rightarrow> int \<Rightarrow> rat" where
  "scale10 q e = (if 0 \<le> e then q * 10 ^ nat e else q / 10 ^ nat (- e))"

definition parseFloat :: "jstring \<Rightarrow> number" where
  "parseFloat input =
     (let s = dropWhile is_ws input;
          neg = (s \<noteq> [] \<and> hd s = 0x2D);
          s1 = (if s \<noteq> [] \<and> (hd s = 0x2B \<or> hd s = 0x2D) then tl s else s)
      in if startsWith s1 (lit ''Infinity'') then (if neg then NegInfinity else PosInfinity)
         else
           (let ip = takeWhile is_digit s1;
                r1 = dropWhile is_digit s1;
                dot = (r1 \<noteq> [] \<and> hd r1 = 0x2E);
                fp = (if dot then takeWhile is_digit (tl r1) else []);
                r2 = (if dot then dropWhile is_digit (tl r1) else r1)
            in if ip = [] \<and> fp = [] then NaN
               else
                 (let mv = scale10 (of_nat (digits_value 10 ip)
                                     + of_nat (digits_value 10 fp) / 10 ^ length fp)
                                   (exponent_part r2)
                  in to_Number (if neg then - mv else mv))))"

text \<open>
  A spreadsheet cell as the source reads it from a row of type \<open>any[]\<close>: a string, a
  number, \<open>null\<close>, or \<open>undefined\<close> (also what indexing past the end of the row gives).
\<close>

datatype cell = Undefined | Null | Str jstring | Num number

definition col :: "cell list \<Rightarrow> nat \<Rightarrow> cell" where
  "col row i = (if i < length row then row ! i else Undefined)"

text \<open>
  \<open>String(value)\<close>. The text of a Number is the host's \<open>Number::toString\<close>, a
  floating-point formatting routine that is taken as a parameter \<open>ts\<close> throughout.
\<close>

definition String :: "(number \<Rightarrow> jstring) \<Rightarrow> cell \<Rightarrow> jstring" where
  "String ts v =
     (case v of
        Undefined \<Rightarrow> lit ''undefined''
      | Null \<Rightarrow> lit ''null''
      | Str s \<Rightarrow> s
      | Num n \<Rightarrow> ts n)"

text \<open>Truthiness of a cell: \<open>undefined\<close>, \<open>null\<close>, the empty string, zero and NaN are falsy.\<close>

definition truthy :: "cell \<Rightarrow> bool" where
  "truthy v =
     (case v of
        Undefined \<Rightarrow> False
      | Null \<Rightarrow> False
      | Str s \<Rightarrow> s \<noteq> []
      | Num n \<Rightarrow> n \<noteq> NaN \<and> n \<noteq> Finite 0)"

datatype failure = TypeError | Message jstring


section \<open>The row normalizer of the HTTP endpoint (\<open>src/app/api/sync/route.ts\<close>)\<close>

record product =
  name :: jstring
  brand :: "jstring option"
  stock :: int
  price :: "number option"
  image_url_1 :: "jstring option"
  image_url_2 :: "jstring option"

text \<open>
  \<open>row[i]?.trim() || null\<close>: \<open>undefined\<close> and \<open>null\<close> short-circuit to \<open>undefined\<close>, a
  string is trimmed and the empty result becomes \<open>null\<close>; a number has no \<open>trim\<close>
  method, so the call throws a TypeError.
\<close>

definition trim_or_null :: "cell \<Rightarrow> failure + jstring option" where
  "trim_or_null v =
     (case v of
        Undefined \<Rightarrow> Inr None
      | Null \<Rightarrow> Inr None
      | Str s \<Rightarrow> (if trim s = [] then Inr None else Inr (Some (trim s)))
      | Num n \<Rightarrow> Inl TypeError)"

text \<open>\<open>parseInt(row[4]) || 0\<close>: NaN and zero both give 0.\<close>

definition parse_stock :: "(number \<Rightarrow> jstring) \<Rightarrow> cell \<Rightarrow> int" where
  "parse_stock ts v = (case parseInt (String ts v) of None \<Rightarrow> 0 | Some n \<Rightarrow> n)"

text \<open>
  The character class of the price pattern (the ruble sign, the letters of the Cyrillic
  abbreviation and \<open>RUB\<close>) under the flag \<open>i\<close>: the ruble sign
  \<open>0x20BD\<close>, the Cyrillic letters er, u and be (\<open>0x440\<close>, \<open>0x443\<close>, \<open>0x431\<close>) and the
  Latin letters R, U and B, each in both cases.
\<close>

definition is_currency :: "jchar \<Rightarrow> bool" where
  "is_currency c \<longleftrightarrow>
     c = 0x20BD \<or> c = 0x440 \<or> c = 0x420 \<or> c = 0x443 \<or> c = 0x423 \<or> c = 0x431 \<or> c = 0x411 \<or>
     c = 0x52 \<or> c = 0x72 \<or> c = 0x55 \<or> c = 0x75 \<or> c = 0x42 \<or> c = 0x62"

text \<open>
  The three \<open>replace\<close> calls and the final \<open>trim\<close> on the price string. Each pattern is
  global and replaces by the empty string, so each call removes the code units of its class.
\<close>

definition clean_price :: "jstring \<Rightarrow> jstring" where
  "clean_price priceStr =
     trim (filter (\<lambda>c. c \<noteq> 0x2C)
            (filter (\<lambda>c. \<not> is_ws c)
              (filter (\<lambda>c. \<not> is_currency c) priceStr)))"

definition is_finite :: "number \<Rightarrow> bool" where
  "is_finite n = (case n of Finite q \<Rightarrow> True | _ \<Rightarrow> False)"

definition parsePrice :: "cell \<Rightarrow> number option" where
  "parsePrice v =
     (if v \<noteq> Undefined \<and> v \<noteq> Null \<and> v \<noteq> Str [] then
        (case v of
           Num n \<Rightarrow> Some n
         | Str s \<Rightarrow>
             (let priceStr = trim s
              in if priceStr \<noteq> [] then
                   (let parsedPrice = parseFloat (clean_price priceStr)
                    in if is_finite parsedPrice then Some parsedPrice else None)
                 else None)
         | _ \<Rightarrow> None)
      else None)"

text \<open>
  The hyperlink overlay is an object with keys \<open>`${rowIndex}_${colIndex}`\<close>; the indices are
  written in decimal.
\<close>

type_synonym hyperlinks = "jstring \<rightharpoonup> jstring"

function decimal :: "nat \<Rightarrow> jstring" where
  "decimal n =
     (if n < 10 then [of_nat (48 + n)] else decimal (n div 10) @ [of_nat (48 + n mod 10)])"
  by pat_completeness auto
termination
  by (relation "measure id") auto

declare decimal.simps [simp del]

definition hyperlinkKey :: "nat \<Rightarrow> nat \<Rightarrow> jstring" where
  "hyperlinkKey rowIndex colIndex = decimal rowIndex @ lit ''_'' @ decimal colIndex"

text \<open>
  The pattern \<open>(https?:\/\/[^\s"')]+)\<close>: \<open>url_char\<close> is its character class,
  \<open>match_here\<close> a match that starts at the head of the string, and \<open>url_match\<close> the
  leftmost match, as \<open>String.prototype.match\<close> finds it.
\<close>

definition url_char :: "jchar \<Rightarrow> bool" where
  "url_char c \<longleftrightarrow> \<not> is_ws c \<and> c \<noteq> 0x22 \<and> c \<noteq> 0x27 \<and> c \<noteq> 0x29"

definition match_here :: "jstring \<Rightarrow> jstring option" where
  "match_here s =
     (if startsWith s (lit ''https://'') \<and> takeWhile url_char (drop 8 s) \<noteq> []
        then Some (lit ''https://'' @ takeWhile url_char (drop 8 s))
      else if startsWith s (lit ''http://'') \<and> takeWhile url_char (drop 7 s) \<noteq> []
        then Some (lit ''http://'' @ takeWhile url_char (drop 7 s))
      else None)"

fun url_match :: "jstring \<Rightarrow> jstring option" where
  "url_match [] = None"
| "url_match (c # cs) =
     (case match_here (c # cs) of Some m \<Rightarrow> Some m | None \<Rightarrow> url_match cs)"

definition extractUrl ::
  "(number \<Rightarrow> jstring) \<Rightarrow> hyperlinks \<Rightarrow> nat \<Rightarrow> nat \<Rightarrow> cell \<Rightarrow> jstring option" where
  "extractUrl ts hyperlinks rowIndex colIndex cellValue =
     (let key = hyperlinkKey rowIndex colIndex
      in if hyperlinks key \<noteq> None \<and> hyperlinks key \<noteq> Some []
           then hyperlinks key
         else if \<not> truthy cellValue then None
         else
           (let str = trim (String ts cellValue)
            in if str = [] then None
               else if startsWith str (lit ''http://'') \<or> startsWith str (lit ''https://'')
                 then Some str
               else url_match str))"

text \<open>
  The callback of \<open>rows.map\<close>: \<open>Inr None\<close> is the \<open>null\<close> of a discarded row, \<open>Inl\<close> a
  thrown exception.
\<close>

definition processRow ::
  "(number \<Rightarrow> jstring) \<Rightarrow> hyperlinks \<Rightarrow> nat \<Rightarrow> cell list \<Rightarrow> failure + product option" where
  "processRow ts hyperlinks index row =
     (case trim_or_null (col row 0) of
        Inl e \<Rightarrow> Inl e
      | Inr name' \<Rightarrow>
          (case trim_or_null (col row 1) of
             Inl e \<Rightarrow> Inl e
           | Inr brand' \<Rightarrow>
               (let stock' = parse_stock ts (col row 4);
                    price' = parsePrice (col row 5);
                    url1 = extractUrl ts hyperlinks index 6 (col row 6);
                    url2 = extractUrl ts hyperlinks index 7 (col row 7)
                in if name' = None \<or> stock' \<le> 0 then Inr None
                   else Inr (Some \<lparr>name = the name', brand = brand', stock = stock',
                                   price = price', image_url_1 = url1,
                                   image_url_2 = url2\<rparr>))))"

text \<open>\<open>rows.map\<close> from position \<open>index\<close> on; the first exception ends the run.\<close>

fun map_rows ::
  "(number \<Rightarrow> jstring) \<Rightarrow> hyperlinks \<Rightarrow> nat \<Rightarrow> cell list list \<Rightarrow> failure + product option list" where
  "map_rows ts hyperlinks index [] = Inr []"
| "map_rows ts hyperlinks index (row # rows) =
     (case processRow ts hyperlinks index row of
        Inl e \<Rightarrow> Inl e
      | Inr p \<Rightarrow>
          (case map_rows ts hyperlinks (Suc index) rows of
             Inl e \<Rightarrow> Inl e
           | Inr ps \<Rightarrow> Inr (p # ps)))"

definition processProducts ::
  "(number \<Rightarrow> jstring) \<Rightarrow> cell list list \<Rightarrow> hyperlinks \<Rightarrow> failure + product list" where
  "processProducts ts rows hyperlinks =
     (case map_rows ts hyperlinks 0 rows of
        Inl e \<Rightarrow> Inl e
      | Inr ps \<Rightarrow> Inr (map the (filter (\<lambda>product. product \<noteq> None) ps)))"

section \<open>The row normalizer of the command-line script (\<open>scripts/sync-sheets.ts\<close>)\<close>

text \<open>
  The script has its own copy of \<open>processProducts\<close>, with its own inline price parsing and
  its own nested \<open>extractUrl\<close>; each is translated from the script's text. The logging of a
  sample product after the filter reads the result and changes nothing.
\<close>

definition cli_parsePrice :: "cell \<Rightarrow> number option" where
  "cli_parsePrice v =
     (if v \<noteq> Undefined \<and> v \<noteq> Null \<and> v \<noteq> Str [] then
        (case v of
           Num n \<Rightarrow> Some n
         | Str s \<Rightarrow>
             (let priceStr = trim s
              in if priceStr \<noteq> [] then
                   (let cleanedPrice =
                          trim (filter (\<lambda>c. c \<noteq> 0x2C)
                                 (filter (\<lambda>c. \<not> is_ws c)
                                   (filter (\<lambda>c. \<not> is_currency c) priceStr)));
                        parsedPrice = parseFloat cleanedPrice
                    in if parsedPrice \<noteq> NaN \<and> is_finite parsedPrice then Some parsedPrice
                       else None)
                 else None)
         | _ \<Rightarrow> None)
      else None)"

definition cli_extractUrl ::
  "(number \<Rightarrow> jstring) \<Rightarrow> hyperlinks \<Rightarrow> nat \<Rightarrow> nat \<Rightarrow> cell \<Rightarrow> jstring option" where
  "cli_extractUrl ts hyperlinks rowIndex colIndex cellValue =
     (let key = decimal rowIndex @ lit ''_'' @ decimal colIndex
      in if hyperlinks key \<noteq> None \<and> hyperlinks key \<noteq> Some [] then hyperlinks key
         else if \<not> truthy cellValue then None
         else
           (let str = trim (String ts cellValue)
            in if str = [] then None
               else if startsWith str (lit ''http://'') \<or> startsWith str (lit ''https://'')
                 then Some str
               else (case url_match str of Some m \<Rightarrow> Some m | None \<Rightarrow> None)))"

definition cli_processRow ::
  "(number \<Rightarrow> jstring) \<Rightarrow> hyperlinks \<Rightarrow> nat \<Rightarrow> cell list \<Rightarrow> failure + product option" where
  "cli_processRow ts hyperlinks index row =
     (case trim_or_null (col row 0) of
        Inl e \<Rightarrow> Inl e
      | Inr name' \<Rightarrow>
          (case trim_or_null (col row 1) of
             Inl e \<Rightarrow> Inl e
           | Inr brand' \<Rightarrow>
               (let stock' = parse_stock ts (col row 4);
                    price' = cli_parsePrice (col row 5);
                    url1 = cli_extractUrl ts hyperlinks index 6 (col row 6);
                    url2 = cli_extractUrl ts hyperlinks index 7 (col row 7)
                in if name' = None \<or> stock' \<le> 0 then Inr None
                   else Inr (Some \<lparr>name = the name', brand = brand', stock = stock',
                                   price = price', image_url_1 = url1,
                                   image_url_2 = url2\<rparr>))))"

fun cli_map_rows ::
  "(number \<Rightarrow> jstring) \<Rightarrow> hyperlinks \<Rightarrow> nat \<Rightarrow> cell list list \<Rightarrow> failure + product option list" where
  "cli_map_rows ts hyperlinks index [] = Inr []"
| "cli_map_rows ts hyperlinks index (row # rows) =
     (case cli_processRow ts hyperlinks index row of
        Inl e \<Rightarrow> Inl e
      | Inr p \<Rightarrow>
          (case cli_map_rows ts hyperlinks (Suc index) rows of
             Inl e \<Rightarrow> Inl e
           | Inr ps \<Rightarrow> Inr (p # ps)))"

definition cli_processProducts ::
  "(number \<Rightarrow> jstring) \<Rightarrow> cell list list \<Rightarrow> hyperlinks \<Rightarrow> failure + product list" where
  "cli_processProducts ts rows hyperlinks =
     (case cli_map_rows ts hyperlinks 0 rows of
        Inl e \<Rightarrow> Inl e
      | Inr ps \<Rightarrow> Inr (map the (filter (\<lambda>product. product \<noteq> None) ps)))"

section \<open>The outside world of a sync run\<close>

text \<open>
  The handler reads the process environment, calls the spreadsheet service twice and
  calls the database. The world below holds what these give and records what was asked:
  \<^item> the environment variables, absent or a string;
  \<^item> \<open>json_credentials\<close>: what decoding \<open>GOOGLE_CREDENTIALS_JSON\<close> from base64 and
    parsing it as JSON gives, the message of the error thrown or the credentials (kept
    abstract); \<open>resolved_path\<close>: what \<open>path.resolve\<close> makes of
    \<open>GOOGLE_CREDENTIALS_PATH\<close>; \<open>credentials_file\<close>: \<open>None\<close> when no file exists
    there, else what reading and parsing it gives; \<open>auth_client\<close>: the message of the
    error thrown while the authenticated client is built (\<open>new GoogleAuth\<close>,
    \<open>auth.getClient()\<close>, \<open>google.sheets\<close>), if one is thrown;
  \<^item> \<open>create_client\<close>: for a database URL and key, the message of the error that
    \<open>createClient\<close> of the database library throws for them (a malformed URL, say), if
    it throws;
  \<^item> \<open>sheet_values\<close> and \<open>sheet_grid\<close>: what \<open>spreadsheets.values.get\<close> and
    \<open>spreadsheets.get\<close> answer, a thrown error message or the data (\<open>data.values\<close>, and
    the \<open>rowData\<close> of the first grid of the first sheet, each possibly missing);
  \<^item> \<open>table\<close>: the rows of the \<open>products\<close> table with their identifiers; \<open>next_id\<close>
    is the identifier the storage layer gives to the next inserted row;
  \<^item> \<open>faults\<close>: for each coming database call in turn, the error message it answers
    with, if any; a call beyond the end of the list succeeds;
  \<^item> \<open>calls\<close>: the service calls made so far, oldest first.
  The database answers as its client documents: \<open>select\<close> returns every row,
  \<open>delete().in('id', ids)\<close> removes the rows whose identifier is listed, \<open>insert\<close> adds
  the rows of the batch; a call that answers with an error changes nothing.
\<close>

datatype call = ReadValues | ReadGrid | SelectIds | DeleteIn "nat list" | Insert "product list"

type_synonym grid_row = "jstring option list option"

record world =
  SYNC_SECRET_KEY :: "jstring option"
  GOOGLE_SHEET_ID :: "jstring option"
  NEXT_PUBLIC_SUPABASE_URL :: "jstring option"
  SUPABASE_SERVICE_ROLE_KEY :: "jstring option"
  GOOGLE_CREDENTIALS_JSON :: "jstring option"
  GOOGLE_CREDENTIALS_PATH :: "jstring option"
  json_credentials :: "jstring + unit"
  resolved_path :: jstring
  credentials_file :: "(jstring + unit) option"
  auth_client :: "jstring option"
  create_client :: "jstring \<Rightarrow> jstring \<Rightarrow> jstring option"
  sheet_values :: "jstring + cell list list option"
  sheet_grid :: "jstring + grid_row list option"
  table :: "(nat \<times> product) list"
  next_id :: nat
  faults :: "jstring option list"
  calls :: "call list"

text \<open>An environment variable or header that is neither absent nor the empty string.\<close>

definition is_set :: "jstring option \<Rightarrow> bool" where
  "is_set v \<longleftrightarrow> v \<noteq> None \<and> v \<noteq> Some []"

definition next_fault :: "world \<Rightarrow> jstring option \<times> world" where
  "next_fault w = (case faults w of [] \<Rightarrow> (None, w) | f # fs \<Rightarrow> (f, w\<lparr>faults := fs\<rparr>))"

section \<open>Reading the sheet, deleting and inserting (\<open>route.ts\<close>)\<close>

text \<open>
  \<open>initializeSheetsAPI\<close>: the inline credentials are preferred to the file; the client
  it returns is kept abstract. An error thrown while reading or parsing the file, or by
  \<open>auth.getClient()\<close>, is not caught here.
\<close>

definition initializeSheetsAPI :: "world \<Rightarrow> failure + unit" where
  "initializeSheetsAPI w =
     (if is_set (GOOGLE_CREDENTIALS_JSON w) then
        (case json_credentials w of
           Inl m \<Rightarrow> Inl (Message (lit ''Failed to parse GOOGLE_CREDENTIALS_JSON: '' @ m))
         | Inr credentials \<Rightarrow>
             (case auth_client w of Some m \<Rightarrow> Inl (Message m) | None \<Rightarrow> Inr ()))
      else if is_set (GOOGLE_CREDENTIALS_PATH w) then
        (case credentials_file w of
           None \<Rightarrow> Inl (Message (lit ''Credentials file not found at: '' @ resolved_path w))
         | Some (Inl m) \<Rightarrow> Inl (Message m)
         | Some (Inr credentials) \<Rightarrow>
             (case auth_client w of Some m \<Rightarrow> Inl (Message m) | None \<Rightarrow> Inr ()))
      else
        Inl (Message (lit ''No credentials provided. Set either GOOGLE_CREDENTIALS_JSON or GOOGLE_CREDENTIALS_PATH'')))"

text \<open>
  \<open>readSheetData\<close>: the two reads, then the overlay built by the two nested \<open>forEach\<close>
  loops over the grid: a cell of column 6 or 7 with a truthy \<open>hyperlink\<close> is recorded
  under the key of its row and column.
\<close>

fun row_hyperlinks :: "nat \<Rightarrow> nat \<Rightarrow> jstring option list \<Rightarrow> hyperlinks \<Rightarrow> hyperlinks" where
  "row_hyperlinks rowIndex colIndex [] hl = hl"
| "row_hyperlinks rowIndex colIndex (cell # cells) hl =
     row_hyperlinks rowIndex (Suc colIndex) cells
       (if (colIndex = 6 \<or> colIndex = 7) \<and> is_set cell
        then hl(hyperlinkKey rowIndex colIndex \<mapsto> the cell) else hl)"

fun grid_hyperlinks :: "nat \<Rightarrow> grid_row list \<Rightarrow> hyperlinks \<Rightarrow> hyperlinks" where
  "grid_hyperlinks rowIndex [] hl = hl"
| "grid_hyperlinks rowIndex (row # rows) hl =
     grid_hyperlinks (Suc rowIndex) rows
       (case row of None \<Rightarrow> hl | Some cells \<Rightarrow> row_hyperlinks rowIndex 0 cells hl)"

definition readSheetData :: "world \<Rightarrow> (failure + cell list list \<times> hyperlinks) \<times> world" where
  "readSheetData w =
     (let w1 = w\<lparr>calls := calls w @ [ReadValues]\<rparr>
      in case sheet_values w of
           Inl m \<Rightarrow> (Inl (Message m), w1)
         | Inr values \<Rightarrow>
             (let w2 = w1\<lparr>calls := calls w1 @ [ReadGrid]\<rparr>
              in case sheet_grid w of
                   Inl m \<Rightarrow> (Inl (Message m), w2)
                 | Inr rowData \<Rightarrow>
                     (let rows = (case values of None \<Rightarrow> [] | Some r \<Rightarrow> r);
                          hyperlinks = (case rowData of
                                          None \<Rightarrow> Map.empty
                                        | Some g \<Rightarrow> grid_hyperlinks 0 g Map.empty)
                      in (Inr (rows, hyperlinks), w2))))"

definition deleteAllProducts :: "world \<Rightarrow> (failure + unit) \<times> world" where
  "deleteAllProducts w =
     (let (fetchError, w1) = next_fault (w\<lparr>calls := calls w @ [SelectIds]\<rparr>);
          products = map fst (table w1)
      in case fetchError of
           Some m \<Rightarrow> (Inl (Message (lit ''Failed to fetch products: '' @ m)), w1)
         | None \<Rightarrow>
             if products = [] then (Inr (), w1)
             else
               (let (error, w2) = next_fault (w1\<lparr>calls := calls w1 @ [DeleteIn products]\<rparr>)
                in case error of
                     Some m \<Rightarrow> (Inl (Message (lit ''Failed to delete products: '' @ m)), w2)
                   | None \<Rightarrow>
                       (Inr (), w2\<lparr>table := filter (\<lambda>r. fst r \<notin> set products) (table w2)\<rparr>)))"

text \<open>
  The loop of \<open>insertProducts\<close>, from position \<open>i\<close> on, in steps of \<open>batchSize = 100\<close>;
  \<open>products.slice(i, i + 100)\<close> is \<open>take 100 (drop i products)\<close>.
\<close>

function insert_batches :: "product list \<Rightarrow> nat \<Rightarrow> world \<Rightarrow> (failure + unit) \<times> world" where
  "insert_batches products i w =
     (if i < length products then
        (let batch = take 100 (drop i products);
             r = next_fault (w\<lparr>calls := calls w @ [Insert batch]\<rparr>)
         in case fst r of
              Some m \<Rightarrow>
                (Inl (Message (lit ''Failed to insert products batch '' @ decimal (i div 100 + 1)
                                @ lit '': '' @ m)), snd r)
            | None \<Rightarrow>
                insert_batches products (i + 100)
                  ((snd r)\<lparr>table := table (snd r)
                                @ zip [next_id (snd r) ..< next_id (snd r) + length batch] batch,
                            next_id := next_id (snd r) + length batch\<rparr>))
      else (Inr (), w))"
  by pat_completeness auto
termination
  by (relation "measure (\<lambda>(products, i, w). length products - i)") auto

declare insert_batches.simps [simp del]

definition insertProducts :: "product list \<Rightarrow> world \<Rightarrow> (failure + unit) \<times> world" where
  "insertProducts products w =
     (if products = [] then (Inr (), w) else insert_batches products 0 w)"

section \<open>The HTTP handler (\<open>route.ts\<close>)\<close>

record request =
  authorization :: "jstring option"

text \<open>
  The JSON body is \<open>{success: true, count}\<close> or \<open>{success: false, error}\<close>; the error is
  the message of what was thrown (for a TypeError, the text the engine gives it).
\<close>

datatype body = Success_count nat | Failure_error failure

record response =
  status :: nat
  body :: body

text \<open>
  \<open>createClient(SUPABASE_URL, SUPABASE_SERVICE_ROLE_KEY, ...)\<close>: the client is kept
  abstract; the call reaches no service, but it throws when the library refuses its
  arguments.
\<close>

definition createClient :: "world \<Rightarrow> jstring \<Rightarrow> jstring \<Rightarrow> failure + unit" where
  "createClient w supabaseUrl supabaseKey =
     (case create_client w supabaseUrl supabaseKey of
        Some m \<Rightarrow> Inl (Message m)
      | None \<Rightarrow> Inr ())"

text \<open>
  The part of the \<open>try\<close> block after the authorization checks; \<open>Inl\<close> is a thrown error,
  \<open>Inr\<close> the count of the success response.
\<close>

definition POST_sync :: "(number \<Rightarrow> jstring) \<Rightarrow> world \<Rightarrow> (failure + nat) \<times> world" where
  "POST_sync ts w =
     (if \<not> is_set (GOOGLE_SHEET_ID w) then
        (Inl (Message (lit ''GOOGLE_SHEET_ID environment variable is required'')), w)
      else if \<not> is_set (NEXT_PUBLIC_SUPABASE_URL w) then
        (Inl (Message (lit ''NEXT_PUBLIC_SUPABASE_URL environment variable is required'')), w)
      else if \<not> is_set (SUPABASE_SERVICE_ROLE_KEY w) then
        (Inl (Message (lit ''SUPABASE_SERVICE_ROLE_KEY environment variable is required'')), w)
      else
        (case createClient w (the (NEXT_PUBLIC_SUPABASE_URL w))
                (the (SUPABASE_SERVICE_ROLE_KEY w)) of
           Inl e \<Rightarrow> (Inl e, w)
         | Inr supabase \<Rightarrow>
             (case initializeSheetsAPI w of
                Inl e \<Rightarrow> (Inl e, w)
              | Inr sheets \<Rightarrow>
                  (case readSheetData w of
                     (Inl e, w1) \<Rightarrow> (Inl e, w1)
                   | (Inr (rows, hyperlinks), w1) \<Rightarrow>
                       (case processProducts ts rows hyperlinks of
                          Inl e \<Rightarrow> (Inl e, w1)
                        | Inr products \<Rightarrow>
                            (case deleteAllProducts w1 of
                               (Inl e, w2) \<Rightarrow> (Inl e, w2)
                             | (Inr u, w2) \<Rightarrow>
                                 (case insertProducts products w2 of
                                    (Inl e, w3) \<Rightarrow> (Inl e, w3)
                                  | (Inr u', w3) \<Rightarrow> (Inr (length products), w3))))))))"

definition unauthorized :: response where
  "unauthorized = \<lparr>status = 401, body = Failure_error (Message (lit ''Unauthorized''))\<rparr>"

definition POST :: "(number \<Rightarrow> jstring) \<Rightarrow> request \<Rightarrow> world \<Rightarrow> response \<times> world" where
  "POST ts request w =
     (if \<not> is_set (SYNC_SECRET_KEY w) then
        (\<lparr>status = 500, body = Failure_error (Message (lit ''Server configuration error''))\<rparr>, w)
      else
        (case authorization request of
           None \<Rightarrow> (unauthorized, w)
         | Some authHeader \<Rightarrow>
             if authHeader = [] \<or> \<not> startsWith authHeader (lit ''Bearer '') then (unauthorized, w)
             else
               (let token = drop 7 authHeader
                in if Some token \<noteq> SYNC_SECRET_KEY w then (unauthorized, w)
                   else
                     (case POST_sync ts w of
                        (Inl e, w1) \<Rightarrow> (\<lparr>status = 500, body = Failure_error e\<rparr>, w1)
                      | (Inr n, w1) \<Rightarrow> (\<lparr>status = 200, body = Success_count n\<rparr>, w1)))))"

section \<open>Predicates and sample data used to state the properties\<close>

text \<open>Column A is absent, empty or made of white space only.\<close>

definition name_blank :: "cell \<Rightarrow> bool" where
  "name_blank v =
     (case v of Undefined \<Rightarrow> True | Null \<Rightarrow> True | Str s \<Rightarrow> list_all is_ws s | Num n \<Rightarrow> False)"

text \<open>The three rows of the end-to-end scenario of the specification and the record it expects.\<close>

definition vase_row :: "cell list" where
  "vase_row = [Str (lit ''Vase A''), Undefined, Undefined, Undefined, Str (lit ''5''),
               Str (0x20BD # lit ''1,200.00'')]"

definition scenario_rows :: "cell list list" where
  "scenario_rows =
     [vase_row,
      [Str [], Undefined, Undefined, Undefined, Str (lit ''3'')],
      [Str (lit ''Plate B''), Undefined, Undefined, Undefined, Str (lit ''0'')]]"

definition vase_a :: product where
  "vase_a = \<lparr>name = lit ''Vase A'', brand = None, stock = 5, price = Some (Finite 1200),
             image_url_1 = None, image_url_2 = None\<rparr>"

text \<open>
  A stand-in for \<open>Number::toString\<close> in examples whose rows hold no number, where it is
  never applied.
\<close>

definition no_numbers :: "number \<Rightarrow> jstring" where
  "no_numbers n = []"


text \<open>A row with a name, stock 5 and the price text \<open>-5\<close>, and the record it yields.\<close>

definition discount_row :: "cell list" where
  "discount_row = [Str (lit ''Vase''), Undefined, Undefined, Undefined, Str (lit ''5''),
                   Str (lit ''-5'')]"

definition discount_record :: product where
  "discount_record = \<lparr>name = lit ''Vase'', brand = None, stock = 5, price = Some (Finite (- 5)),
                       image_url_1 = None, image_url_2 = None\<rparr>"

text \<open>
  A string of the form \<open>http://...\<close> or \<open>https://...\<close> whose rest is not empty and has no
  white space, double quote, apostrophe or closing parenthesis: what the specification
  calls an embedded URL.
\<close>

definition embedded_url :: "jstring \<Rightarrow> bool" where
  "embedded_url u \<longleftrightarrow>
     (startsWith u (lit ''http://'') \<and> drop 7 u \<noteq> [] \<and> list_all url_char (drop 7 u)) \<or>
     (startsWith u (lit ''https://'') \<and> drop 8 u \<noteq> [] \<and> list_all url_char (drop 8 u))"

text \<open>
  An image URL of a record is resolved when it is the non-empty overlay entry of its cell,
  or, there being none, is absent or starts with \<open>http://\<close> or \<open>https://\<close>.
\<close>

definition url_resolved :: "hyperlinks \<Rightarrow> nat \<Rightarrow> nat \<Rightarrow> jstring option \<Rightarrow> bool" where
  "url_resolved hl i c r =
     (case hl (hyperlinkKey i c) of
        None \<Rightarrow>
          (case r of None \<Rightarrow> True
           | Some u \<Rightarrow> startsWith u (lit ''http://'') \<or> startsWith u (lit ''https://''))
      | Some h \<Rightarrow>
          if h = [] then
            (case r of None \<Rightarrow> True
             | Some u \<Rightarrow> startsWith u (lit ''http://'') \<or> startsWith u (lit ''https://''))
          else r = Some h)"

text \<open>Overlays for the first image cell of the first row, and the record of the last one.\<close>

definition link_overlay :: hyperlinks where
  "link_overlay = [lit ''0_6'' \<mapsto> lit ''https://cdn.example/x.jpg'']"

definition mailto_overlay :: hyperlinks where
  "mailto_overlay = [lit ''0_6'' \<mapsto> lit ''mailto:shop@example.com'']"

definition mailto_record :: product where
  "mailto_record = \<lparr>name = lit ''Vase A'', brand = None, stock = 5, price = Some (Finite 1200),
                     image_url_1 = Some (lit ''mailto:shop@example.com''), image_url_2 = None\<rparr>"

text \<open>The chunks of at most 100 in which a list is inserted, from position \<open>i\<close> on.\<close>

function batches :: "'a list \<Rightarrow> nat \<Rightarrow> 'a list list" where
  "batches xs i = (if i < length xs then take 100 (drop i xs) # batches xs (i + 100) else [])"
  by pat_completeness auto
termination
  by (relation "measure (\<lambda>(xs, i). length xs - i)") auto

declare batches.simps [simp del]

text \<open>No coming database call answers with an error.\<close>

definition no_faults :: "world \<Rightarrow> bool" where
  "no_faults w = list_all (\<lambda>f. f = None) (faults w)"

text \<open>
  A database library that refuses a URL with no \<open>http\<close> or \<open>https\<close> scheme. A configured
  server whose sheet holds the three rows of the scenario and whose table holds one
  earlier record; the same server with no secret, with an empty sheet, with an empty sheet
  and a malformed database URL, and with a link on the first image cell of the first row;
  and three requests.
\<close>

definition strict_client :: "jstring \<Rightarrow> jstring \<Rightarrow> jstring option" where
  "strict_client supabaseUrl supabaseKey =
     (if startsWith supabaseUrl (lit ''http://'') \<or> startsWith supabaseUrl (lit ''https://'')
      then None
      else Some (lit ''Invalid supabaseUrl: Must be a valid HTTP or HTTPS URL.''))"

definition demo_world :: world where
  "demo_world =
     \<lparr>SYNC_SECRET_KEY = Some (lit ''s3cret''), GOOGLE_SHEET_ID = Some (lit ''sheet-1''),
      NEXT_PUBLIC_SUPABASE_URL = Some (lit ''https://db.example''),
      SUPABASE_SERVICE_ROLE_KEY = Some (lit ''service-key''),
      GOOGLE_CREDENTIALS_JSON = Some (lit ''e30=''), GOOGLE_CREDENTIALS_PATH = None,
      json_credentials = Inr (), resolved_path = [], credentials_file = None,
      auth_client = None, create_client = strict_client,
      sheet_values = Inr (Some scenario_rows), sheet_grid = Inr None,
      table = [(7, discount_record)], next_id = 8, faults = [], calls = []\<rparr>"

definition unconfigured_world :: world where
  "unconfigured_world = demo_world\<lparr>SYNC_SECRET_KEY := None\<rparr>"

definition empty_sheet_world :: world where
  "empty_sheet_world = demo_world\<lparr>sheet_values := Inr None\<rparr>"

definition bad_url_world :: world where
  "bad_url_world = empty_sheet_world\<lparr>NEXT_PUBLIC_SUPABASE_URL := Some (lit ''not-a-url'')\<rparr>"

definition link_world :: world where
  "link_world =
     demo_world\<lparr>sheet_grid :=
       Inr (Some [Some [None, None, None, None, None, None,
                        Some (lit ''https://cdn.example/x.jpg'')]])\<rparr>"

definition authorized_request :: request where
  "authorized_request = \<lparr>authorization = Some (lit ''Bearer s3cret'')\<rparr>"

definition anonymous_request :: request where
  "anonymous_request = \<lparr>authorization = None\<rparr>"

definition wrong_token_request :: request where
  "wrong_token_request = \<lparr>authorization = Some (lit ''Bearer guess'')\<rparr>"
section \<open>Properties of the row normalizer\<close>

subsection \<open>Auxiliary facts\<close>

lemma dropWhile_all_self:
  assumes a: "\<forall>x\<in>set (dropWhile P xs). P x"
  shows "dropWhile P xs = []"
proof (rule ccontr)
  assume n: "dropWhile P xs \<noteq> []"
  then have "\<not> P (hd (dropWhile P xs))" by (rule hd_dropWhile)
  moreover have "hd (dropWhile P xs) \<in> set (dropWhile P xs)" using n by simp
  ultimately show False using a by blast
qed

lemma trim_empty_iff: "trim s = [] \<longleftrightarrow> list_all is_ws s"
proof
  assume "trim s = []"
  then have "\<forall>x\<in>set (dropWhile is_ws s). is_ws x"
    by (simp add: trim_def dropWhile_eq_Nil_conv)
  then have "dropWhile is_ws s = []" by (rule dropWhile_all_self)
  then show "list_all is_ws s" by (simp add: dropWhile_eq_Nil_conv list_all_iff)
next
  assume "list_all is_ws s"
  then have "dropWhile is_ws s = []" by (simp add: dropWhile_eq_Nil_conv list_all_iff)
  then show "trim s = []" by (simp add: trim_def del: dropWhile_eq_Nil_conv)
qed

lemma last_dropWhile_ne: "dropWhile P xs \<noteq> [] \<Longrightarrow> last (dropWhile P xs) = last xs"
  by (induction xs) (auto split: if_splits)

lemma trim_ends:
  assumes "trim s \<noteq> []"
  shows "\<not> is_ws (hd (trim s))" and "\<not> is_ws (last (trim s))"
proof -
  let ?t = "dropWhile is_ws s"
  let ?u = "dropWhile is_ws (rev ?t)"
  from assms have u: "?u \<noteq> []" by (simp add: trim_def)
  then have t: "?t \<noteq> []" by (cases "?t") auto
  have "hd (trim s) = last ?u" using u by (simp add: trim_def hd_rev)
  also have "\<dots> = last (rev ?t)" using u by (rule last_dropWhile_ne)
  also have "\<dots> = hd ?t" using t by (simp add: last_rev)
  finally show "\<not> is_ws (hd (trim s))" using t hd_dropWhile by metis
  have "last (trim s) = hd ?u" using u by (simp add: trim_def last_rev)
  then show "\<not> is_ws (last (trim s))" using u hd_dropWhile by metis
qed

lemma trim_idem: "trim (trim s) = trim s"
proof (cases "trim s = []")
  case True
  have "trim [] = []" by (simp add: trim_def)
  with True show ?thesis by (simp only:)
next
  case False
  from trim_ends[OF False] have a: "\<not> is_ws (hd (trim s))" and b: "\<not> is_ws (last (trim s))" by auto
  have 1: "dropWhile is_ws (trim s) = trim s" using False a by (cases "trim s") auto
  have 2: "dropWhile is_ws (rev (trim s)) = rev (trim s)" using False b
    by (cases "rev (trim s)") (auto simp: last_rev[symmetric] hd_rev)
  show ?thesis unfolding trim_def[of "trim s"] 1 2 by simp
qed

lemma map_rows_length: "map_rows ts hl i rows = Inr rs \<Longrightarrow> length rs = length rows"
  by (induction rows arbitrary: i rs) (auto split: sum.splits)

lemma map_rows_nth:
  "map_rows ts hl i rows = Inr rs \<Longrightarrow> j < length rows \<Longrightarrow> processRow ts hl (i + j) (rows ! j) = Inr (rs ! j)"
proof (induction rows arbitrary: i rs j)
  case Nil then show ?case by simp
next
  case (Cons r rows)
  show ?case
  proof (cases j)
    case 0
    with Cons.prems show ?thesis by (auto split: sum.splits)
  next
    case (Suc k)
    from Cons.prems obtain p ps where p: "processRow ts hl i r = Inr p"
      and ps: "map_rows ts hl (Suc i) rows = Inr ps" and rs: "rs = p # ps"
      by (auto split: sum.splits)
    from Cons.prems Suc have "k < length rows" by simp
    from Cons.IH[OF ps this] show ?thesis using Suc rs by simp
  qed
qed


lemma trim_or_null_None: "trim_or_null v = Inr None \<longleftrightarrow> name_blank v"
  by (cases v) (simp_all add: trim_or_null_def name_blank_def trim_empty_iff)

lemma trim_or_null_Some:
  "trim_or_null v = Inr (Some t) \<Longrightarrow> \<exists>s. v = Str s \<and> t = trim s \<and> t \<noteq> []"
  by (cases v) (auto simp: trim_or_null_def split: if_splits)

lemma processRow_kept:
  assumes "processRow ts hl i row = Inr (Some p)"
  shows "\<exists>s. col row 0 = Str s \<and> name p = trim s \<and> trim s \<noteq> []"
    and "stock p = parse_stock ts (col row 4)" and "0 < stock p"
    and "price p = parsePrice (col row 5)"
    and "image_url_1 p = extractUrl ts hl i 6 (col row 6)"
    and "image_url_2 p = extractUrl ts hl i 7 (col row 7)"
proof -
  from assms obtain n b where n: "trim_or_null (col row 0) = Inr n"
    and b: "trim_or_null (col row 1) = Inr b"
    by (auto simp: processRow_def split: sum.splits)
  from assms n b have keep: "n \<noteq> None" "0 < parse_stock ts (col row 4)"
    and p: "p = \<lparr>name = the n, brand = b, stock = parse_stock ts (col row 4),
                 price = parsePrice (col row 5),
                 image_url_1 = extractUrl ts hl i 6 (col row 6),
                 image_url_2 = extractUrl ts hl i 7 (col row 7)\<rparr>"
    by (auto simp: processRow_def Let_def split: if_splits)
  from keep(1) obtain t where t: "n = Some t" by auto
  from trim_or_null_Some[OF n[unfolded t]] p t
  show "\<exists>s. col row 0 = Str s \<and> name p = trim s \<and> trim s \<noteq> []" by auto
  show "stock p = parse_stock ts (col row 4)" using p by simp
  show "0 < stock p" using p keep by simp
  show "price p = parsePrice (col row 5)" using p by simp
  show "image_url_1 p = extractUrl ts hl i 6 (col row 6)" using p by simp
  show "image_url_2 p = extractUrl ts hl i 7 (col row 7)" using p by simp
qed

lemma processRow_discarded:
  assumes "processRow ts hl i row = Inr r"
  shows "r = None \<longleftrightarrow> name_blank (col row 0) \<or> parse_stock ts (col row 4) \<le> 0"
proof -
  from assms obtain n b where n: "trim_or_null (col row 0) = Inr n"
    and b: "trim_or_null (col row 1) = Inr b"
    by (auto simp: processRow_def split: sum.splits)
  from assms n b have "r = None \<longleftrightarrow> n = None \<or> parse_stock ts (col row 4) \<le> 0"
    by (auto simp: processRow_def Let_def split: if_splits)
  with n trim_or_null_None[of "col row 0"] show ?thesis by auto
qed

lemma map_rows_count:
  "map_rows ts hl i rows = Inr rs \<Longrightarrow>
   length (filter (\<lambda>r. r \<noteq> None) rs) =
   length (filter (\<lambda>row. \<not> name_blank (col row 0) \<and> 0 < parse_stock ts (col row 4)) rows)"
proof (induction rows arbitrary: i rs)
  case Nil then show ?case by simp
next
  case (Cons row rows)
  from Cons.prems obtain r rs' where r: "processRow ts hl i row = Inr r"
    and rs': "map_rows ts hl (Suc i) rows = Inr rs'" and rs: "rs = r # rs'"
    by (auto split: sum.splits)
  from processRow_discarded[OF r] Cons.IH[OF rs'] rs show ?case by auto
qed

text \<open>The normalizer returns whenever no row has a number in column A or B.\<close>

lemma trim_or_null_returns: "(\<forall>n. v \<noteq> Num n) \<Longrightarrow> \<exists>r. trim_or_null v = Inr r"
  by (cases v) (auto simp: trim_or_null_def)

lemma map_rows_returns:
  "\<forall>row\<in>set rows. \<forall>n. col row 0 \<noteq> Num n \<and> col row 1 \<noteq> Num n \<Longrightarrow>
   \<exists>rs. map_rows ts hl i rows = Inr rs"
proof (induction rows arbitrary: i)
  case Nil then show ?case by simp
next
  case (Cons row rows)
  from Cons.prems obtain a b where "trim_or_null (col row 0) = Inr a" "trim_or_null (col row 1) = Inr b"
    using trim_or_null_returns[of "col row 0"] trim_or_null_returns[of "col row 1"] by auto
  then have "\<exists>r. processRow ts hl i row = Inr r"
    by (simp add: processRow_def Let_def)
  then obtain r where r: "processRow ts hl i row = Inr r" ..
  from Cons.IH[of "Suc i"] Cons.prems obtain rs where "map_rows ts hl (Suc i) rows = Inr rs" by auto
  with r show ?case by simp
qed

lemma processProducts_returns:
  "\<forall>row\<in>set rows. \<forall>n. col row 0 \<noteq> Num n \<and> col row 1 \<noteq> Num n \<Longrightarrow>
   \<exists>ps. processProducts ts rows hl = Inr ps"
  using map_rows_returns[of rows ts hl 0] by (auto simp: processProducts_def)

lemma processProducts_results:
  assumes "processProducts ts rows hl = Inr ps"
  shows "\<exists>rs. map_rows ts hl 0 rows = Inr rs \<and> map Some ps = filter (\<lambda>r. r \<noteq> None) rs"
proof -
  from assms obtain rs where rs: "map_rows ts hl 0 rows = Inr rs"
    and ps: "ps = map the (filter (\<lambda>r. r \<noteq> None) rs)"
    by (auto simp: processProducts_def split: sum.splits)
  have "map Some (map the (filter (\<lambda>r. r \<noteq> None) xs)) = filter (\<lambda>r. r \<noteq> None) xs"
    for xs :: "product option list"
    by (induction xs) auto
  with rs ps show ?thesis by simp
qed

lemmas js_eval =
  lit_def is_ws_def trim_def startsWith_def to_Number_def is_digit_def digit_val_def
  is_radix_digit_def digits_value_def parseInt_def exponent_part_def scale10_def parseFloat_def
  col_def String_def truthy_def trim_or_null_def parse_stock_def is_currency_def clean_price_def
  is_finite_def parsePrice_def hyperlinkKey_def url_char_def match_here_def extractUrl_def
  processRow_def processProducts_def Let_def

lemma decimal_digit: "n < 10 \<Longrightarrow> decimal n = [of_nat (48 + n)]"
  by (simp add: decimal.simps)

lemma scenario_row0: "processRow no_numbers Map.empty 0 vase_row = Inr (Some vase_a)"
  by (simp add: js_eval vase_row_def vase_a_def decimal_digit)

lemma scenario_output: "processProducts no_numbers scenario_rows Map.empty = Inr [vase_a]"
  by (simp add: processProducts_def scenario_rows_def scenario_row0)
     (simp add: js_eval decimal_digit)

lemma filter_dropWhile_disjoint:
  "(\<And>c. Q c \<Longrightarrow> \<not> P c) \<Longrightarrow> filter Q (dropWhile P xs) = filter Q xs"
  by (induction xs) auto

lemma filter_trim:
  assumes "\<And>c. Q c \<Longrightarrow> \<not> is_ws c"
  shows "filter Q (trim s) = filter Q s"
proof -
  have "filter Q (trim s) = rev (filter Q (dropWhile is_ws (rev (dropWhile is_ws s))))"
    by (simp add: trim_def rev_filter)
  also have "\<dots> = rev (filter Q (rev (dropWhile is_ws s)))"
    using assms by (simp add: filter_dropWhile_disjoint[of Q is_ws])
  also have "\<dots> = filter Q (dropWhile is_ws s)" by (simp add: rev_filter)
  also have "\<dots> = filter Q s" using assms by (simp add: filter_dropWhile_disjoint[of Q is_ws])
  finally show ?thesis .
qed

lemma trim_no_ws: "\<forall>c\<in>set xs. \<not> is_ws c \<Longrightarrow> trim xs = xs"
proof -
  assume a: "\<forall>c\<in>set xs. \<not> is_ws c"
  have d: "dropWhile is_ws ys = ys" if "\<forall>c\<in>set ys. \<not> is_ws c" for ys
    using that by (cases ys) auto
  from a have "dropWhile is_ws xs = xs" by (rule d)
  moreover from a have "dropWhile is_ws (rev xs) = rev xs" by (intro d) simp
  ultimately show ?thesis by (simp add: trim_def)
qed

lemma clean_price_filter:
  "clean_price (trim s) = filter (\<lambda>c. \<not> is_currency c \<and> \<not> is_ws c \<and> c \<noteq> 0x2C) s"
proof -
  let ?Q = "\<lambda>c. \<not> is_currency c \<and> \<not> is_ws c \<and> c \<noteq> 0x2C"
  have "filter (\<lambda>c. c \<noteq> 0x2C) (filter (\<lambda>c. \<not> is_ws c) (filter (\<lambda>c. \<not> is_currency c) (trim s)))
        = filter ?Q (trim s)"
    by (simp add: conj_commute conj_left_commute)
  also have "\<dots> = filter ?Q s" by (rule filter_trim) simp
  finally have e: "filter (\<lambda>c. c \<noteq> 0x2C) (filter (\<lambda>c. \<not> is_ws c) (filter (\<lambda>c. \<not> is_currency c) (trim s)))
        = filter ?Q s" .
  have "trim (filter ?Q s) = filter ?Q s" by (rule trim_no_ws) simp
  with e show ?thesis by (simp only: clean_price_def)
qed

lemma parseFloat_Nil: "parseFloat [] = NaN"
  by (simp add: js_eval)






lemma discount_row0: "processRow no_numbers Map.empty 0 discount_row = Inr (Some discount_record)"
  by (simp add: js_eval discount_row_def discount_record_def decimal_digit)

lemma decimal_digits: "\<forall>c\<in>set (decimal n). is_digit c"
proof (induction n rule: decimal.induct)
  case (1 n)
  have d: "is_digit (of_nat (48 + k))" if "k < 10" for k :: nat
  proof -
    from that have "k \<in> {0,1,2,3,4,5,6,7,8,9}" by auto
    then show ?thesis by (auto simp: is_digit_def)
  qed
  show ?case
  proof (cases "n < 10")
    case True
    then have "decimal n = [of_nat (48 + n)]" by (rule decimal_digit)
    with d[OF True] show ?thesis by (simp del: of_nat_add)
  next
    case False
    with 1 have "\<forall>c\<in>set (decimal (n div 10)). is_digit c" by simp
    moreover have "is_digit (of_nat (48 + n mod 10))" by (rule d) simp
    moreover have "decimal n = decimal (n div 10) @ [of_nat (48 + n mod 10)]"
      using False by (subst decimal.simps) simp
    ultimately show ?thesis by (simp del: of_nat_add)
  qed
qed

lemma digit_val_of_nat: "k < 10 \<Longrightarrow> digit_val (of_nat (48 + k)) = Some k"
proof -
  assume "k < 10"
  then have "k \<in> {0,1,2,3,4,5,6,7,8,9}" by auto
  then show ?thesis by (auto simp: digit_val_def)
qed

lemma digits_value_snoc:
  "digits_value R (ds @ [c]) = R * digits_value R ds + the (digit_val c)"
  by (simp add: digits_value_def)

lemma digits_value_decimal: "digits_value 10 (decimal n) = n"
proof (induction n rule: decimal.induct)
  case (1 n)
  show ?case
  proof (cases "n < 10")
    case True
    then have "decimal n = [of_nat (48 + n)]" by (rule decimal_digit)
    with digit_val_of_nat[OF True] show ?thesis
      by (simp add: digits_value_def del: of_nat_add)
  next
    case False
    with 1 have "digits_value 10 (decimal (n div 10)) = n div 10" by simp
    moreover have "digit_val (of_nat (48 + n mod 10)) = Some (n mod 10)"
      by (rule digit_val_of_nat) simp
    moreover have "decimal n = decimal (n div 10) @ [of_nat (48 + n mod 10)]"
      using False by (subst decimal.simps) simp
    ultimately show ?thesis by (simp add: digits_value_snoc del: of_nat_add)
  qed
qed

lemma split_at_sep:
  assumes "a @ x # b = a' @ x # b'" and "x \<notin> set a" and "x \<notin> set a'"
  shows "a = a' \<and> b = b'"
proof -
  have tw: "takeWhile (\<lambda>c. c \<noteq> x) (ys @ x # zs) = ys" if "x \<notin> set ys" for ys zs
    using that by (induction ys) auto
  have "takeWhile (\<lambda>c. c \<noteq> x) (a @ x # b) = a" using assms(2) by (rule tw)
  moreover have "takeWhile (\<lambda>c. c \<noteq> x) (a' @ x # b') = a'" using assms(3) by (rule tw)
  ultimately have "a = a'" using assms(1) by simp
  with assms(1) show ?thesis by simp
qed

lemma hyperlinkKey_inj:
  assumes "hyperlinkKey i c = hyperlinkKey i' c'"
  shows "i = i' \<and> c = c'"
proof -
  have sep: "lit ''_'' = [0x5F]" by (simp add: lit_def)
  have nd: "\<not> is_digit 0x5F" by (simp add: is_digit_def)
  have n1: "0x5F \<notin> set (decimal i)" and n2: "0x5F \<notin> set (decimal i')"
    using decimal_digits nd by blast+
  from assms have "decimal i @ 0x5F # decimal c = decimal i' @ 0x5F # decimal c'"
    by (simp add: hyperlinkKey_def sep)
  from split_at_sep[OF this n1 n2] have "decimal i = decimal i'" "decimal c = decimal c'" by auto
  then have "digits_value 10 (decimal i) = digits_value 10 (decimal i')"
    "digits_value 10 (decimal c) = digits_value 10 (decimal c')" by simp_all
  then show ?thesis by (simp add: digits_value_decimal)
qed

lemma take_takeWhile_length: "take (length (takeWhile P xs)) xs = takeWhile P xs"
  by (induction xs) auto

lemma scheme_body:
  assumes "take n s = p" and "length p = n" and "takeWhile url_char (drop n s) \<noteq> []"
  defines "u \<equiv> p @ takeWhile url_char (drop n s)"
  shows "take (length u) s = u" and "drop n u \<noteq> []" and "list_all url_char (drop n u)"
    and "take n u = p" and "length u < length s \<longrightarrow> \<not> url_char (s ! length u)"
proof -
  let ?b = "takeWhile url_char (drop n s)"
  have len: "length u = n + length ?b" by (simp add: u_def assms(2))
  have "take (n + length ?b) s = take n s @ take (length ?b) (drop n s)"
    by (rule take_add)
  then show "take (length u) s = u"
    by (simp add: len take_takeWhile_length assms(1)) (simp add: u_def)
  show "drop n u \<noteq> []" using assms(2,3) by (simp add: u_def)
  show "list_all url_char (drop n u)" using assms(2)
    by (auto simp: u_def list_all_iff dest: set_takeWhileD)
  show "take n u = p" using assms(2) by (simp add: u_def)
  show "length u < length s \<longrightarrow> \<not> url_char (s ! length u)"
  proof
    assume "length u < length s"
    then have lt: "length ?b < length (drop n s)" by (simp add: len)
    then have "\<not> url_char (drop n s ! length ?b)" by (rule nth_length_takeWhile)
    moreover have "drop n s ! length ?b = s ! (n + length ?b)" using lt by simp
    ultimately show "\<not> url_char (s ! length u)" by (simp add: len)
  qed
qed

lemma match_here_Some:
  assumes "match_here s = Some u"
  shows "embedded_url u \<and> take (length u) s = u \<and>
         (length u < length s \<longrightarrow> \<not> url_char (s ! length u))"
proof -
  have l8: "length (lit ''https://'') = 8" and l7: "length (lit ''http://'') = 7"
    by (simp_all add: lit_def)
  consider (https) "startsWith s (lit ''https://'')" "takeWhile url_char (drop 8 s) \<noteq> []"
      "u = lit ''https://'' @ takeWhile url_char (drop 8 s)"
    | (http) "startsWith s (lit ''http://'')" "takeWhile url_char (drop 7 s) \<noteq> []"
      "u = lit ''http://'' @ takeWhile url_char (drop 7 s)"
    using assms by (auto simp: match_here_def split: if_splits)
  then show ?thesis
  proof cases
    case https
    from https(1) have t: "take 8 s = lit ''https://''" by (simp add: startsWith_def l8)
    note f = scheme_body[OF t l8 https(2), folded https(3)]
    from f(4) have "startsWith u (lit ''https://'')" by (simp add: startsWith_def l8)
    with f show ?thesis by (simp add: embedded_url_def)
  next
    case http
    from http(1) have t: "take 7 s = lit ''http://''" by (simp add: startsWith_def l7)
    note f = scheme_body[OF t l7 http(2), folded http(3)]
    from f(4) have "startsWith u (lit ''http://'')" by (simp add: startsWith_def l7)
    with f show ?thesis by (simp add: embedded_url_def)
  qed
qed

lemma starts_take:
  assumes "startsWith (take n s) p" and "drop (length p) (take n s) \<noteq> []"
    and "list_all url_char (drop (length p) (take n s))"
  shows "startsWith s p \<and> takeWhile url_char (drop (length p) s) \<noteq> []"
proof -
  let ?k = "length p"
  from assms(2) have kn: "?k < n" and ks: "?k < length s" by auto
  from assms(1) have "take ?k (take n s) = p" by (simp add: startsWith_def)
  with kn have sp: "take ?k s = p" by (simp add: min_def)
  have "drop ?k (take n s) = take (n - ?k) (drop ?k s)" by (simp add: drop_take)
  with assms(2,3) have "url_char (hd (take (n - ?k) (drop ?k s)))"
    by (cases "take (n - ?k) (drop ?k s)") (auto simp: list_all_iff)
  moreover have "hd (take (n - ?k) (drop ?k s)) = hd (drop ?k s)" using kn by (cases "drop ?k s") auto
  ultimately have "url_char (hd (drop ?k s))" by simp
  moreover have "drop ?k s \<noteq> []" using ks by simp
  ultimately have "takeWhile url_char (drop ?k s) \<noteq> []" by (cases "drop ?k s") auto
  with sp show ?thesis by (simp add: startsWith_def)
qed

lemma match_here_None:
  assumes "match_here s = None"
  shows "\<not> embedded_url (take n s)"
proof
  have l8: "length (lit ''https://'') = 8" and l7: "length (lit ''http://'') = 7"
    by (simp_all add: lit_def)
  assume "embedded_url (take n s)"
  then consider "startsWith s (lit ''http://'') \<and> takeWhile url_char (drop 7 s) \<noteq> []"
    | "startsWith s (lit ''https://'') \<and> takeWhile url_char (drop 8 s) \<noteq> []"
    using starts_take[of n s "lit ''http://''"] starts_take[of n s "lit ''https://''"]
    unfolding embedded_url_def l7 l8 by blast
  then show False using assms by cases (auto simp: match_here_def split: if_splits)
qed

lemma url_match_Some:
  "url_match t = Some u \<Longrightarrow>
   \<exists>k<length t. match_here (drop k t) = Some u \<and> (\<forall>j<k. match_here (drop j t) = None)"
proof (induction t)
  case Nil then show ?case by simp
next
  case (Cons c cs)
  show ?case
  proof (cases "match_here (c # cs)")
    case (Some m)
    with Cons.prems have "match_here (drop 0 (c # cs)) = Some u" by simp
    then show ?thesis by (intro exI[of _ 0]) simp
  next
    case None
    with Cons.prems have "url_match cs = Some u" by simp
    from Cons.IH[OF this] obtain k where k: "k < length cs" "match_here (drop k cs) = Some u"
      "\<forall>j<k. match_here (drop j cs) = None" by blast
    have "\<forall>j<Suc k. match_here (drop j (c # cs)) = None"
    proof (intro allI impI)
      fix j assume "j < Suc k"
      then show "match_here (drop j (c # cs)) = None" using None k(3) by (cases j) auto
    qed
    with k(1,2) show ?thesis by (intro exI[of _ "Suc k"]) simp
  qed
qed

lemma match_here_Nil: "match_here [] = None"
  by (simp add: match_here_def startsWith_def lit_def)

lemma url_match_None: "url_match t = None \<Longrightarrow> match_here (drop j t) = None"
proof (induction t arbitrary: j)
  case Nil then show ?case by (simp add: match_here_Nil)
next
  case (Cons c cs)
  then show ?case by (cases j) (auto split: option.splits)
qed


lemma extractUrl_overlay:
  "hl (hyperlinkKey i c) = Some h \<Longrightarrow> h \<noteq> [] \<Longrightarrow> extractUrl ts hl i c v = Some h"
  by (simp add: extractUrl_def)

lemma extractUrl_text:
  assumes "hl (hyperlinkKey i c) = None \<or> hl (hyperlinkKey i c) = Some []"
  shows "extractUrl ts hl i c (Str s) =
           (if startsWith (trim s) (lit ''http://'') \<or> startsWith (trim s) (lit ''https://'')
            then Some (trim s) else url_match (trim s))"
proof (cases "trim s = []")
  case True
  have "\<not> startsWith [] (lit ''http://'')" "\<not> startsWith [] (lit ''https://'')"
    by (simp_all add: startsWith_def lit_def)
  with True assms show ?thesis by (auto simp: extractUrl_def Let_def String_def truthy_def)
next
  case False
  then have "s \<noteq> []" by (auto simp: trim_def)
  with False assms show ?thesis by (auto simp: extractUrl_def Let_def String_def truthy_def)
qed

lemma embedded_url_scheme:
  "embedded_url u \<Longrightarrow> startsWith u (lit ''http://'') \<or> startsWith u (lit ''https://'')"
  by (auto simp: embedded_url_def)

lemma extractUrl_scheme:
  assumes "extractUrl ts hl i c v = Some u"
    and "hl (hyperlinkKey i c) = None \<or> hl (hyperlinkKey i c) = Some []"
  shows "startsWith u (lit ''http://'') \<or> startsWith u (lit ''https://'')"
proof -
  let ?t = "trim (String ts v)"
  from assms have r: "(if startsWith ?t (lit ''http://'') \<or> startsWith ?t (lit ''https://'')
                       then Some ?t else url_match ?t) = Some u"
    by (auto simp: extractUrl_def Let_def split: if_splits)
  show ?thesis
  proof (cases "startsWith ?t (lit ''http://'') \<or> startsWith ?t (lit ''https://'')")
    case True
    with r show ?thesis by auto
  next
    case False
    with r have "url_match ?t = Some u" by simp
    from url_match_Some[OF this] obtain k where "match_here (drop k ?t) = Some u" by blast
    from match_here_Some[OF this] show ?thesis by (simp add: embedded_url_scheme)
  qed
qed

lemma processProducts_member:
  assumes "processProducts ts rows hl = Inr ps" and "p \<in> set ps"
  shows "\<exists>i<length rows. processRow ts hl i (rows ! i) = Inr (Some p)"
proof -
  from processProducts_results[OF assms(1)] obtain rs where rs: "map_rows ts hl 0 rows = Inr rs"
    and ps: "map Some ps = filter (\<lambda>r. r \<noteq> None) rs" by blast
  from assms(2) have "Some p \<in> set (map Some ps)" by simp
  then have "Some p \<in> set rs" unfolding ps by simp
  then obtain j where j: "j < length rs" "rs ! j = Some p" by (auto simp: in_set_conv_nth)
  with map_rows_length[OF rs] map_rows_nth[OF rs, of j] show ?thesis by auto
qed

subsection \<open>Auxiliary facts on the sync run\<close>

lemma next_fault_keeps:
  "calls (snd (next_fault w)) = calls w" "table (snd (next_fault w)) = table w"
  "next_id (snd (next_fault w)) = next_id w"
  by (simp_all add: next_fault_def split: list.splits)

lemma next_fault_none:
  "no_faults w \<Longrightarrow> fst (next_fault w) = None \<and> no_faults (snd (next_fault w))"
  by (auto simp: next_fault_def no_faults_def split: list.splits)

lemma no_faults_update [simp]:
  "no_faults (w\<lparr>calls := c\<rparr>) = no_faults w"
  "no_faults (w\<lparr>table := t\<rparr>) = no_faults w"
  "no_faults (w\<lparr>next_id := n\<rparr>) = no_faults w"
  by (simp_all add: no_faults_def)

lemma filter_own_ids: "filter (\<lambda>r. fst r \<notin> set (map fst t)) t = []"
  by (induction t) auto

lemma deleteAllProducts_ok:
  assumes "deleteAllProducts w = (Inr u, w')"
  shows "table w' = []"
    and "calls w' = calls w @ [SelectIds] @
           (if table w = [] then [] else [DeleteIn (map fst (table w))])"
proof -
  define w0 where "w0 = w\<lparr>calls := calls w @ [SelectIds]\<rparr>"
  define w1 where "w1 = snd (next_fault w0)"
  define w1' where "w1' = w1\<lparr>calls := calls w1 @ [DeleteIn (map fst (table w1))]\<rparr>"
  define w2 where "w2 = snd (next_fault w1')"
  have t1: "table w1 = table w" and c1: "calls w1 = calls w @ [SelectIds]"
    by (simp_all add: w1_def w0_def next_fault_keeps)
  have t2: "table w2 = table w" and c2: "calls w2 = calls w @ [SelectIds, DeleteIn (map fst (table w))]"
    by (simp_all add: w2_def w1'_def next_fault_keeps t1 c1)
  have d: "deleteAllProducts w =
        (case fst (next_fault w0) of
           Some m \<Rightarrow> (Inl (Message (lit ''Failed to fetch products: '' @ m)), w1)
         | None \<Rightarrow>
             if map fst (table w1) = [] then (Inr (), w1)
             else
               (case fst (next_fault w1') of
                  Some m \<Rightarrow> (Inl (Message (lit ''Failed to delete products: '' @ m)), w2)
                | None \<Rightarrow>
                    (Inr (), w2\<lparr>table := filter (\<lambda>r. fst r \<notin> set (map fst (table w1))) (table w2)\<rparr>)))"
    unfolding deleteAllProducts_def Let_def case_prod_beta w2_def w1'_def w1_def w0_def
    by (rule refl)
  from assms d consider (empty) "table w = []" "w' = w1"
    | (deleted) "table w \<noteq> []"
        "w' = w2\<lparr>table := filter (\<lambda>r. fst r \<notin> set (map fst (table w1))) (table w2)\<rparr>"
    by (auto simp: t1 split: option.splits if_splits)
  then have "table w' = [] \<and>
    calls w' = calls w @ [SelectIds] @ (if table w = [] then [] else [DeleteIn (map fst (table w))])"
  proof cases
    case empty
    then show ?thesis by (simp add: t1 c1)
  next
    case deleted
    then show ?thesis by (simp add: t1 c2 t2 filter_own_ids)
  qed
  then show "table w' = []" and
    "calls w' = calls w @ [SelectIds] @ (if table w = [] then [] else [DeleteIn (map fst (table w))])"
    by simp_all
qed

lemma deleteAllProducts_no_faults:
  assumes "no_faults w"
  shows "\<exists>w'. deleteAllProducts w = (Inr (), w') \<and> no_faults w'"
proof -
  define w0 where "w0 = w\<lparr>calls := calls w @ [SelectIds]\<rparr>"
  define w1 where "w1 = snd (next_fault w0)"
  define w1' where "w1' = w1\<lparr>calls := calls w1 @ [DeleteIn (map fst (table w1))]\<rparr>"
  define w2 where "w2 = snd (next_fault w1')"
  have n0: "no_faults w0" using assms by (simp add: w0_def)
  from next_fault_none[OF n0] have f0: "fst (next_fault w0) = None" and n1: "no_faults w1"
    by (simp_all add: w1_def)
  have n1': "no_faults w1'" using n1 by (simp add: w1'_def)
  from next_fault_none[OF n1'] have f1: "fst (next_fault w1') = None" and n2: "no_faults w2"
    by (simp_all add: w2_def)
  have d: "deleteAllProducts w =
        (case fst (next_fault w0) of
           Some m \<Rightarrow> (Inl (Message (lit ''Failed to fetch products: '' @ m)), w1)
         | None \<Rightarrow>
             if map fst (table w1) = [] then (Inr (), w1)
             else
               (case fst (next_fault w1') of
                  Some m \<Rightarrow> (Inl (Message (lit ''Failed to delete products: '' @ m)), w2)
                | None \<Rightarrow>
                    (Inr (), w2\<lparr>table := filter (\<lambda>r. fst r \<notin> set (map fst (table w1))) (table w2)\<rparr>)))"
    unfolding deleteAllProducts_def Let_def case_prod_beta w2_def w1'_def w1_def w0_def
    by (rule refl)
  show ?thesis unfolding d f0 f1 using n1 n2 by simp
qed


lemma batches_concat: "concat (batches xs i) = drop i xs"
proof (induction xs i rule: batches.induct)
  case (1 xs i)
  show ?case
  proof (cases "i < length xs")
    case True
    with 1 have "concat (batches xs (i + 100)) = drop (i + 100) xs" by simp
    moreover have "take 100 (drop i xs) @ drop (i + 100) xs = drop i xs"
      by (metis add.commute append_take_drop_id drop_drop)
    ultimately show ?thesis using True by (subst batches.simps) simp
  next
    case False
    then show ?thesis by (subst batches.simps) simp
  qed
qed

lemma batches_sizes: "b \<in> set (batches xs i) \<Longrightarrow> b \<noteq> [] \<and> length b \<le> 100"
proof (induction xs i rule: batches.induct)
  case (1 xs i)
  show ?case
  proof (cases "i < length xs")
    case True
    with "1.prems" have "b = take 100 (drop i xs) \<or> b \<in> set (batches xs (i + 100))"
      by (subst (asm) batches.simps) simp
    then show ?thesis using True "1.IH" by auto
  next
    case False
    with "1.prems" show ?thesis by (subst (asm) batches.simps) simp
  qed
qed

lemma batches_Nil: "batches [] 0 = []"
  by (subst batches.simps) simp

lemma insert_batches_ok:
  "insert_batches ps i w = (Inr u, w') \<Longrightarrow>
   map snd (table w') = map snd (table w) @ drop i ps \<and>
   calls w' = calls w @ map Insert (batches ps i)"
proof (induction ps i w rule: insert_batches.induct)
  case (1 ps i w)
  define batch where "batch = take 100 (drop i ps)"
  define r where "r = next_fault (w\<lparr>calls := calls w @ [Insert batch]\<rparr>)"
  define w2 where "w2 = (snd r)\<lparr>table := table (snd r) @ zip [next_id (snd r) ..< next_id (snd r) + length batch] batch,
                                 next_id := next_id (snd r) + length batch\<rparr>"
  show ?case
  proof (cases "i < length ps")
    case False
    with "1.prems" have "w' = w" by (subst (asm) insert_batches.simps) simp
    moreover have "batches ps i = []" using False by (subst batches.simps) simp
    ultimately show ?thesis using False by simp
  next
    case True
    have step: "insert_batches ps i w =
        (case fst r of
           Some m \<Rightarrow> (Inl (Message (lit ''Failed to insert products batch '' @ decimal (i div 100 + 1)
                                     @ lit '': '' @ m)), snd r)
         | None \<Rightarrow> insert_batches ps (i + 100) w2)"
      using True unfolding w2_def r_def batch_def
      by (subst insert_batches.simps) (simp add: Let_def)
    from "1.prems" step have none: "fst r = None" and rec: "insert_batches ps (i + 100) w2 = (Inr u, w')"
      by (auto split: option.splits)
    from "1.IH"[OF True batch_def r_def none, folded w2_def, OF rec]
    have ih: "map snd (table w') = map snd (table w2) @ drop (i + 100) ps"
      "calls w' = calls w2 @ map Insert (batches ps (i + 100))" by auto
    have t2: "map snd (table w2) = map snd (table w) @ batch"
      by (simp add: w2_def r_def next_fault_keeps)
    have c2: "calls w2 = calls w @ [Insert batch]"
      by (simp add: w2_def r_def next_fault_keeps)
    have "batch @ drop (i + 100) ps = drop i ps" unfolding batch_def
      by (metis add.commute append_take_drop_id drop_drop)
    moreover have "batches ps i = batch # batches ps (i + 100)"
      using True unfolding batch_def by (subst batches.simps) simp
    ultimately show ?thesis using ih t2 c2 by simp
  qed
qed


lemma insert_batches_no_faults:
  "no_faults w \<Longrightarrow> \<exists>w'. insert_batches ps i w = (Inr (), w') \<and> no_faults w'"
proof (induction ps i w rule: insert_batches.induct)
  case (1 ps i w)
  define batch where "batch = take 100 (drop i ps)"
  define r where "r = next_fault (w\<lparr>calls := calls w @ [Insert batch]\<rparr>)"
  define w2 where "w2 = (snd r)\<lparr>table := table (snd r) @ zip [next_id (snd r) ..< next_id (snd r) + length batch] batch,
                                 next_id := next_id (snd r) + length batch\<rparr>"
  show ?case
  proof (cases "i < length ps")
    case False
    then have "insert_batches ps i w = (Inr (), w)" by (subst insert_batches.simps) simp
    with "1.prems" show ?thesis by simp
  next
    case True
    have "no_faults (w\<lparr>calls := calls w @ [Insert batch]\<rparr>)" using "1.prems" by simp
    from next_fault_none[OF this] have none: "fst r = None" and n: "no_faults (snd r)"
      by (simp_all add: r_def)
    have n2: "no_faults w2" using n by (simp add: w2_def)
    have step: "insert_batches ps i w = insert_batches ps (i + 100) w2"
      using True none unfolding w2_def r_def batch_def
      by (subst insert_batches.simps) (simp add: Let_def)
    from "1.IH"[OF True batch_def r_def none, folded w2_def, OF n2] step show ?thesis by simp
  qed
qed

lemma insertProducts_ok:
  assumes "insertProducts ps w = (Inr u, w')"
  shows "map snd (table w') = map snd (table w) @ ps"
    and "calls w' = calls w @ map Insert (batches ps 0)"
proof -
  have "map snd (table w') = map snd (table w) @ ps \<and>
        calls w' = calls w @ map Insert (batches ps 0)"
  proof (cases "ps = []")
    case True
    with assms show ?thesis by (simp add: insertProducts_def batches_Nil)
  next
    case False
    with assms have "insert_batches ps 0 w = (Inr u, w')" by (simp add: insertProducts_def)
    from insert_batches_ok[OF this] show ?thesis by simp
  qed
  then show "map snd (table w') = map snd (table w) @ ps"
    and "calls w' = calls w @ map Insert (batches ps 0)" by simp_all
qed

lemma insertProducts_no_faults:
  "no_faults w \<Longrightarrow> \<exists>w'. insertProducts ps w = (Inr (), w') \<and> no_faults w'"
  using insert_batches_no_faults[of w ps 0] by (simp add: insertProducts_def)

lemma readSheetData_ok:
  assumes "readSheetData w = (Inr (rows, hl), w1)"
  shows "w1 = w\<lparr>calls := calls w @ [ReadValues, ReadGrid]\<rparr>"
  using assms by (auto simp: readSheetData_def Let_def split: sum.splits)

text \<open>The overlay that the reader builds has no empty entry.\<close>

lemma row_hyperlinks_nonempty:
  "\<forall>k. hl k \<noteq> Some [] \<Longrightarrow> row_hyperlinks i c cells hl k \<noteq> Some []"
  by (induction cells arbitrary: c hl) (auto simp: is_set_def)

lemma grid_hyperlinks_nonempty:
  "\<forall>k. hl k \<noteq> Some [] \<Longrightarrow> grid_hyperlinks i g hl k \<noteq> Some []"
proof (induction g arbitrary: i hl)
  case Nil then show ?case by simp
next
  case (Cons row g)
  have "\<forall>k. (case row of None \<Rightarrow> hl | Some cells \<Rightarrow> row_hyperlinks i 0 cells hl) k \<noteq> Some []"
    using Cons.prems row_hyperlinks_nonempty by (cases row) auto
  from Cons.IH[OF this] show ?case by simp
qed

lemma readSheetData_overlay_nonempty:
  assumes "readSheetData w = (Inr (rows, hl), w1)"
  shows "hl k \<noteq> Some []"
proof -
  have "grid_hyperlinks 0 g Map.empty k \<noteq> Some []" for g
    by (rule grid_hyperlinks_nonempty) simp
  with assms show ?thesis
    by (auto simp: readSheetData_def Let_def split: sum.splits option.splits)
qed

text \<open>What a run of the pipeline that returns a count has done.\<close>

lemma POST_sync_ok:
  assumes "POST_sync ts w = (Inr n, w')"
  shows "\<exists>rows hl ps w1.
           readSheetData w = (Inr (rows, hl), w1) \<and>
           processProducts ts rows hl = Inr ps \<and> n = length ps \<and>
           map snd (table w') = ps \<and>
           calls w' = calls w @ [ReadValues, ReadGrid, SelectIds] @
             (if table w = [] then [] else [DeleteIn (map fst (table w))]) @
             map Insert (batches ps 0)"
proof -
  from assms obtain rows hl w1 ps w2 u u' where
    r: "readSheetData w = (Inr (rows, hl), w1)" and
    p: "processProducts ts rows hl = Inr ps" and
    d: "deleteAllProducts w1 = (Inr u, w2)" and
    i: "insertProducts ps w2 = (Inr u', w')" and
    n: "n = length ps"
    by (auto simp: POST_sync_def split: if_splits option.splits prod.splits sum.splits)
  from readSheetData_ok[OF r] have w1: "table w1 = table w" "calls w1 = calls w @ [ReadValues, ReadGrid]"
    by simp_all
  from deleteAllProducts_ok[OF d] w1 have w2: "table w2 = []"
    "calls w2 = calls w @ [ReadValues, ReadGrid, SelectIds] @
       (if table w = [] then [] else [DeleteIn (map fst (table w))])" by simp_all
  from insertProducts_ok[OF i] w2 have "map snd (table w') = ps"
    "calls w' = calls w @ [ReadValues, ReadGrid, SelectIds] @
       (if table w = [] then [] else [DeleteIn (map fst (table w))]) @ map Insert (batches ps 0)"
    by simp_all
  with r p n show ?thesis by blast
qed

lemma POST_sync_no_faults:
  assumes "is_set (GOOGLE_SHEET_ID w)" "is_set (NEXT_PUBLIC_SUPABASE_URL w)"
    "is_set (SUPABASE_SERVICE_ROLE_KEY w)"
    "createClient w (the (NEXT_PUBLIC_SUPABASE_URL w)) (the (SUPABASE_SERVICE_ROLE_KEY w))
       = Inr supabase"
    "initializeSheetsAPI w = Inr sheets"
    "readSheetData w = (Inr (rows, hl), w1)" "processProducts ts rows hl = Inr ps"
    "no_faults w"
  shows "\<exists>w'. POST_sync ts w = (Inr (length ps), w')"
proof -
  from readSheetData_ok[OF assms(6)] assms(8) have "no_faults w1" by simp
  from deleteAllProducts_no_faults[OF this] obtain w2 where
    d: "deleteAllProducts w1 = (Inr (), w2)" and n2: "no_faults w2" by blast
  from insertProducts_no_faults[OF n2] obtain w3 where
    i: "insertProducts ps w2 = (Inr (), w3)" by blast
  from assms(1-7) d i show ?thesis by (simp add: POST_sync_def)
qed

text \<open>A run in which \<open>createClient\<close> throws makes no service call.\<close>

lemma POST_sync_client_error:
  assumes "is_set (GOOGLE_SHEET_ID w)" "is_set (NEXT_PUBLIC_SUPABASE_URL w)"
    "is_set (SUPABASE_SERVICE_ROLE_KEY w)"
    "createClient w (the (NEXT_PUBLIC_SUPABASE_URL w)) (the (SUPABASE_SERVICE_ROLE_KEY w))
       = Inl e"
  shows "POST_sync ts w = (Inl e, w)"
  using assms by (simp add: POST_sync_def)

lemma POST_authorized:
  assumes "SYNC_SECRET_KEY w = Some k" "k \<noteq> []" "authorization request = Some (lit ''Bearer '' @ k)"
  shows "POST ts request w =
           (case POST_sync ts w of
              (Inl e, w1) \<Rightarrow> (\<lparr>status = 500, body = Failure_error e\<rparr>, w1)
            | (Inr n, w1) \<Rightarrow> (\<lparr>status = 200, body = Success_count n\<rparr>, w1))"
proof -
  have l: "length (lit ''Bearer '') = 7" by (simp add: lit_def)
  have "startsWith (lit ''Bearer '' @ k) (lit ''Bearer '')" by (simp add: startsWith_def)
  moreover have "drop 7 (lit ''Bearer '' @ k) = k" using l by simp
  moreover have "lit ''Bearer '' @ k \<noteq> []" using assms(2) by simp
  ultimately show ?thesis using assms by (simp add: POST_def is_set_def Let_def)
qed

lemma POST_200:
  assumes "POST ts request w = (resp, w')" "status resp = 200"
  shows "\<exists>n. POST_sync ts w = (Inr n, w') \<and> body resp = Success_count n"
  using assms
  by (auto simp: POST_def unauthorized_def Let_def
           split: if_splits option.splits prod.splits sum.splits)

lemma demo_read:
  "readSheetData demo_world =
     (Inr (scenario_rows, Map.empty), demo_world\<lparr>calls := [ReadValues, ReadGrid]\<rparr>)"
  by (simp add: readSheetData_def demo_world_def)

lemma link_read:
  "readSheetData link_world =
     (Inr (scenario_rows, link_overlay), link_world\<lparr>calls := [ReadValues, ReadGrid]\<rparr>)"
proof -
  have "row_hyperlinks 0 0 [None, None, None, None, None, None,
                            Some (lit ''https://cdn.example/x.jpg'')] Map.empty = link_overlay"
    by (simp add: link_overlay_def is_set_def hyperlinkKey_def decimal_digit lit_def)
  then show ?thesis
    by (simp add: readSheetData_def link_world_def demo_world_def)
qed

lemma demo_run:
  "POST no_numbers authorized_request demo_world =
     (\<lparr>status = 200, body = Success_count 1\<rparr>,
      demo_world\<lparr>table := [(8, vase_a)], next_id := 9,
                 calls := [ReadValues, ReadGrid, SelectIds, DeleteIn [7], Insert [vase_a]]\<rparr>)"
proof -
  have s: "POST_sync no_numbers demo_world =
     (Inr 1, demo_world\<lparr>table := [(8, vase_a)], next_id := 9,
                 calls := [ReadValues, ReadGrid, SelectIds, DeleteIn [7], Insert [vase_a]]\<rparr>)"
    unfolding POST_sync_def demo_read
    by (simp add: scenario_output demo_world_def createClient_def strict_client_def
                  startsWith_def initializeSheetsAPI_def deleteAllProducts_def
                  next_fault_def insertProducts_def insert_batches.simps[of _ 0]
                  insert_batches.simps[of _ 100] is_set_def lit_def)
  show ?thesis
    unfolding POST_def s
    by (simp add: demo_world_def authorized_request_def is_set_def startsWith_def lit_def)
qed

lemma bad_url_run:
  "POST no_numbers authorized_request bad_url_world =
     (\<lparr>status = 500,
       body = Failure_error
                (Message (lit ''Invalid supabaseUrl: Must be a valid HTTP or HTTPS URL.''))\<rparr>,
      bad_url_world)"
proof -
  have s: "POST_sync no_numbers bad_url_world =
     (Inl (Message (lit ''Invalid supabaseUrl: Must be a valid HTTP or HTTPS URL.'')),
      bad_url_world)"
    by (rule POST_sync_client_error)
       (simp_all add: bad_url_world_def empty_sheet_world_def demo_world_def is_set_def
                      createClient_def strict_client_def startsWith_def lit_def)
  show ?thesis
    unfolding POST_def s
    by (simp add: bad_url_world_def empty_sheet_world_def demo_world_def authorized_request_def
                  is_set_def startsWith_def lit_def)
qed

lemma unconfigured_run:
  "POST no_numbers anonymous_request unconfigured_world =
     (\<lparr>status = 500, body = Failure_error (Message (lit ''Server configuration error''))\<rparr>,
      unconfigured_world)"
  by (simp add: POST_def unconfigured_world_def is_set_def)

lemma unauthorized_fields:
  "status unauthorized = 401" "body unauthorized = Failure_error (Message (lit ''Unauthorized''))"
  by (simp_all add: unauthorized_def)

lemma POST_unauthorized:
  assumes "SYNC_SECRET_KEY w = Some k" "k \<noteq> []"
    and "authorization request = None \<or>
         (\<exists>h. authorization request = Some h \<and> (\<not> startsWith h (lit ''Bearer '') \<or> drop 7 h \<noteq> k))"
  shows "POST ts request w = (unauthorized, w)"
  using assms by (auto simp: POST_def is_set_def Let_def)

subsection \<open>Claims C8 and C1\<close>

text \<open>
  Claim C8. For every input row sequence the output of the normalizer is an order-preserving
  sublist of the per-row normalization results: the list \<open>rs\<close> holds the result of the
  callback for each row, in row order, and the output is exactly the results that are not
  \<open>null\<close>, in the same relative order, with nothing left in place of a discarded row.
\<close>

theorem normalizer_order_preserving:
  assumes "processProducts ts rows hl = Inr ps"
  shows "\<exists>rs. length rs = length rows \<and>
           (\<forall>j<length rows. processRow ts hl j (rows ! j) = Inr (rs ! j)) \<and>
           map Some ps = filter (\<lambda>r. r \<noteq> None) rs \<and>
           subseq (map Some ps) rs"
proof -
  from processProducts_results[OF assms] obtain rs where rs: "map_rows ts hl 0 rows = Inr rs"
    and ps: "map Some ps = filter (\<lambda>r. r \<noteq> None) rs" by blast
  have "length rs = length rows" using rs by (rule map_rows_length)
  moreover have "\<forall>j<length rows. processRow ts hl j (rows ! j) = Inr (rs ! j)"
    using map_rows_nth[OF rs] by simp
  moreover have "subseq (map Some ps) rs" unfolding ps by (rule subseq_filter_left)
  ultimately show ?thesis using ps by blast
qed

theorem normalizer_order_preserving_witness:
  "processProducts no_numbers scenario_rows Map.empty = Inr [vase_a] \<and>
   (\<exists>rs. length rs = length scenario_rows \<and>
      (\<forall>j<length scenario_rows.
         processRow no_numbers Map.empty j (scenario_rows ! j) = Inr (rs ! j)) \<and>
      map Some [vase_a] = filter (\<lambda>r. r \<noteq> None) rs \<and>
      subseq (map Some [vase_a]) rs)"
  using normalizer_order_preserving[OF scenario_output] scenario_output by simp

text \<open>
  Claim C1. Whenever the normalizer returns, every record of its output has a non-empty
  name that is trimmed (no white space at either end) and a stock above zero; a row whose
  column A is absent, empty or white space only, or whose column E coerces to an integer
  that is zero or less, is mapped to \<open>null\<close> and so is not in the output, and the output
  has exactly as many records as there are rows that pass both checks. Absent and
  non-numeric values of column E coerce to 0.
\<close>

theorem normalizer_output_invariant:
  assumes "processProducts ts rows hl = Inr ps"
  shows "(\<forall>p\<in>set ps. name p \<noteq> [] \<and> \<not> is_ws (hd (name p)) \<and> \<not> is_ws (last (name p)) \<and>
                       trim (name p) = name p \<and> 0 < stock p) \<and>
         (\<forall>j<length rows.
            name_blank (col (rows ! j) 0) \<or> parse_stock ts (col (rows ! j) 4) \<le> 0 \<longrightarrow>
            processRow ts hl j (rows ! j) = Inr None) \<and>
         length ps =
           length (filter (\<lambda>row. \<not> name_blank (col row 0) \<and> 0 < parse_stock ts (col row 4)) rows) \<and>
         parse_stock ts Undefined = 0 \<and> parse_stock ts Null = 0 \<and>
         (\<forall>s. parseInt s = None \<longrightarrow> parse_stock ts (Str s) = 0)"
proof -
  from processProducts_results[OF assms] obtain rs where rs: "map_rows ts hl 0 rows = Inr rs"
    and ps: "map Some ps = filter (\<lambda>r. r \<noteq> None) rs" by blast
  have a: "name p \<noteq> [] \<and> \<not> is_ws (hd (name p)) \<and> \<not> is_ws (last (name p)) \<and>
           trim (name p) = name p \<and> 0 < stock p" if "p \<in> set ps" for p
  proof -
    from that have "Some p \<in> set (map Some ps)" by simp
    then have "Some p \<in> set rs" unfolding ps by simp
    then obtain j where j: "j < length rs" "rs ! j = Some p" by (auto simp: in_set_conv_nth)
    with map_rows_length[OF rs] map_rows_nth[OF rs, of j]
    have row: "processRow ts hl j (rows ! j) = Inr (Some p)" by simp
    from processRow_kept(1)[OF row] obtain s where s: "name p = trim s" "trim s \<noteq> []" by blast
    from processRow_kept(3)[OF row] s trim_ends[OF s(2)] trim_idem[of s]
    show ?thesis by simp
  qed
  have b: "processRow ts hl j (rows ! j) = Inr None"
    if "j < length rows" "name_blank (col (rows ! j) 0) \<or> parse_stock ts (col (rows ! j) 4) \<le> 0" for j
  proof -
    from map_rows_nth[OF rs that(1)] have r: "processRow ts hl j (rows ! j) = Inr (rs ! j)" by simp
    from processRow_discarded[OF r] that(2) have "rs ! j = None" by simp
    with r show ?thesis by simp
  qed
  have c: "parse_stock ts Undefined = 0" "parse_stock ts Null = 0"
    by (simp_all add: js_eval)
  have d: "\<forall>s. parseInt s = None \<longrightarrow> parse_stock ts (Str s) = 0"
    by (simp add: parse_stock_def String_def)
  have "length ps = length (map Some ps)" by simp
  also have "\<dots> = length (filter (\<lambda>r. r \<noteq> None) rs)" unfolding ps ..
  also note map_rows_count[OF rs]
  finally show ?thesis using a b c d by blast
qed

theorem normalizer_output_invariant_witness:
  "processProducts no_numbers scenario_rows Map.empty = Inr [vase_a] \<and>
   name vase_a \<noteq> [] \<and> 0 < stock vase_a \<and>
   name_blank (col (scenario_rows ! 1) 0) \<and>
   processRow no_numbers Map.empty 1 (scenario_rows ! 1) = Inr None \<and>
   parse_stock no_numbers (col (scenario_rows ! 2) 4) \<le> 0 \<and>
   processRow no_numbers Map.empty 2 (scenario_rows ! 2) = Inr None \<and>
   parseInt (lit ''n/a'') = None \<and> parse_stock no_numbers (Str (lit ''n/a'')) = 0"
proof -
  note t = normalizer_output_invariant[OF scenario_output]
  have len: "length scenario_rows = 3" by (simp add: scenario_rows_def)
  have b1: "name_blank (col (scenario_rows ! 1) 0)"
    by (simp add: scenario_rows_def col_def name_blank_def)
  have b2: "parse_stock no_numbers (col (scenario_rows ! 2) 4) \<le> 0"
    by (simp add: scenario_rows_def js_eval)
  have b3: "parseInt (lit ''n/a'') = None" by (simp add: js_eval)
  from t have "name vase_a \<noteq> [] \<and> 0 < stock vase_a" by simp
  moreover from t b1 len have "processRow no_numbers Map.empty 1 (scenario_rows ! 1) = Inr None"
    by simp
  moreover from t b2 len have "processRow no_numbers Map.empty 2 (scenario_rows ! 2) = Inr None"
    by simp
  moreover from t b3 have "parse_stock no_numbers (Str (lit ''n/a'')) = 0" by blast
  ultimately show ?thesis using scenario_output b1 b2 b3 by blast
qed

subsection \<open>Claims C3 and C6: the price\<close>

text \<open>
  Claim C3. For a textual price cell the price is what \<open>parseFloat\<close> reads from the text
  with every currency character, every white-space character and every comma removed, and
  it is absent when that is not a finite number. The ruble sign followed by \<open>27,000.00\<close>
  gives 27000, the clean text \<open>27000\<close> gives 27000, and a numeric cell is used as it is.
  The price of a kept record is the one computed from column F of its row.
\<close>

theorem price_of_text:
  "parsePrice (Str s) =
     (let r = parseFloat (filter (\<lambda>c. \<not> is_currency c \<and> \<not> is_ws c \<and> c \<noteq> 0x2C) s)
      in if is_finite r then Some r else None) \<and>
   parsePrice (Str (0x20BD # lit ''27,000.00'')) = Some (Finite 27000) \<and>
   parsePrice (Str (lit ''27000'')) = Some (Finite 27000) \<and>
   parsePrice (Num n) = Some n \<and>
   (\<forall>ts hl i row p. processRow ts hl i row = Inr (Some p) \<longrightarrow> price p = parsePrice (col row 5))"
proof -
  let ?Q = "\<lambda>c. \<not> is_currency c \<and> \<not> is_ws c \<and> c \<noteq> 0x2C"
  have a: "parsePrice (Str s) = (let r = parseFloat (filter ?Q s) in if is_finite r then Some r else None)"
  proof (cases "trim s = []")
    case True
    then have "list_all is_ws s" by (simp only: trim_empty_iff)
    then have "filter ?Q s = []" by (auto simp: list_all_iff filter_empty_conv)
    moreover have "parsePrice (Str s) = None" using True by (simp add: parsePrice_def)
    ultimately show ?thesis by (simp add: parseFloat_Nil is_finite_def)
  next
    case False
    then have "s \<noteq> []" by (auto simp: trim_def)
    with False show ?thesis by (simp add: parsePrice_def clean_price_filter Let_def)
  qed
  have b: "parsePrice (Str (0x20BD # lit ''27,000.00'')) = Some (Finite 27000)"
    by (simp add: js_eval)
  have c: "parsePrice (Str (lit ''27000'')) = Some (Finite 27000)"
    by (simp add: js_eval)
  have d: "parsePrice (Num n) = Some n" by (simp add: parsePrice_def)
  have e: "\<forall>ts hl i row p. processRow ts hl i row = Inr (Some p) \<longrightarrow> price p = parsePrice (col row 5)"
    using processRow_kept(4) by blast
  from a b c d e show ?thesis by blast
qed

theorem price_of_text_witness:
  "processRow no_numbers Map.empty 0 vase_row = Inr (Some vase_a) \<and>
   price vase_a = parsePrice (col vase_row 5) \<and>
   parsePrice (col vase_row 5) = Some (Finite 1200) \<and>
   parsePrice (Str (lit ''abc'')) = None \<and>
   parsePrice (Num (Finite 27000)) = Some (Finite 27000)"
proof -
  note t = price_of_text[of "lit ''abc''" "Finite 27000"]
  from t scenario_row0 have "price vase_a = parsePrice (col vase_row 5)" by blast
  moreover have "price vase_a = Some (Finite 1200)" by (simp add: vase_a_def)
  moreover have "parsePrice (Str (lit ''abc'')) = None" by (simp add: js_eval)
  moreover from t have "parsePrice (Num (Finite 27000)) = Some (Finite 27000)" by blast
  ultimately show ?thesis using scenario_row0 by simp
qed




subsection \<open>Claim C9: the two copies of the normalizer\<close>

text \<open>
  Claim C9. The row normalizer of the command-line script and the one of the HTTP endpoint
  are extensionally equal: for every row sequence and hyperlink overlay (and every
  rendering of numbers) they return the same records, or throw the same exception.
\<close>

theorem cli_processProducts_eq:
  "cli_processProducts ts rows hyperlinks = processProducts ts rows hyperlinks"
proof -
  have price: "cli_parsePrice v = parsePrice v" for v
  proof -
    have fin: "(n \<noteq> NaN \<and> is_finite n) = is_finite n" for n
      by (cases n) (simp_all add: is_finite_def)
    show ?thesis
      by (cases v) (simp_all add: cli_parsePrice_def parsePrice_def clean_price_def Let_def fin)
  qed
  have url: "cli_extractUrl ts hyperlinks i c v = extractUrl ts hyperlinks i c v" for i c v
    by (simp add: cli_extractUrl_def extractUrl_def hyperlinkKey_def Let_def split: option.splits)
  have row: "cli_processRow ts hyperlinks i r = processRow ts hyperlinks i r" for i r
    unfolding cli_processRow_def processRow_def price url by (rule refl)
  have "cli_map_rows ts hyperlinks i rows = map_rows ts hyperlinks i rows" for i
    by (induction rows arbitrary: i) (simp_all add: row split: sum.splits)
  then show ?thesis unfolding cli_processProducts_def processProducts_def by (simp only:)
qed

theorem cli_processProducts_eq_witness:
  "cli_processProducts no_numbers scenario_rows Map.empty = Inr [vase_a] \<and>
   processProducts no_numbers scenario_rows Map.empty = Inr [vase_a]"
  using cli_processProducts_eq[of no_numbers scenario_rows Map.empty] scenario_output by simp

subsection \<open>Claims C4 and C7: image URLs\<close>

text \<open>
  The resolution order of \<open>extractUrl\<close> for any overlay. A non-empty overlay entry for
  the cell is the result, whatever the cell holds. With no entry (or an empty one), for a
  cell text \<open>s\<close>: if the trimmed text starts with \<open>http://\<close> or \<open>https://\<close> the result
  is the trimmed text; if not, a result \<open>u\<close> is an embedded URL that occurs in the
  trimmed text at some position \<open>k\<close>, cannot be extended there, and no embedded URL
  starts at an earlier position; and the result is absent only when the trimmed text has
  no embedded URL at all.
\<close>

lemma extractUrl_cases:
  "(\<forall>i' c'. hyperlinkKey i c = hyperlinkKey i' c' \<longrightarrow> i = i' \<and> c = c') \<and>
   (\<forall>h. hl (hyperlinkKey i c) = Some h \<and> h \<noteq> [] \<longrightarrow> extractUrl ts hl i c v = Some h) \<and>
   (hl (hyperlinkKey i c) = None \<or> hl (hyperlinkKey i c) = Some [] \<longrightarrow>
      (startsWith (trim s) (lit ''http://'') \<or> startsWith (trim s) (lit ''https://'') \<longrightarrow>
         extractUrl ts hl i c (Str s) = Some (trim s)) \<and>
      (\<not> (startsWith (trim s) (lit ''http://'') \<or> startsWith (trim s) (lit ''https://'')) \<longrightarrow>
         (\<forall>u. extractUrl ts hl i c (Str s) = Some u \<longrightarrow>
            embedded_url u \<and>
            (\<exists>k<length (trim s).
               take (length u) (drop k (trim s)) = u \<and>
               (k + length u < length (trim s) \<longrightarrow> \<not> url_char (trim s ! (k + length u))) \<and>
               (\<forall>j<k. \<forall>n. \<not> embedded_url (take n (drop j (trim s)))))) \<and>
         (extractUrl ts hl i c (Str s) = None \<longrightarrow>
            (\<forall>j n. \<not> embedded_url (take n (drop j (trim s)))))))"
proof -
  let ?t = "trim s"
  have a: "\<forall>h. hl (hyperlinkKey i c) = Some h \<and> h \<noteq> [] \<longrightarrow> extractUrl ts hl i c v = Some h"
    using extractUrl_overlay by blast
  have b: "embedded_url u \<and>
            (\<exists>k<length ?t.
               take (length u) (drop k ?t) = u \<and>
               (k + length u < length ?t \<longrightarrow> \<not> url_char (?t ! (k + length u))) \<and>
               (\<forall>j<k. \<forall>n. \<not> embedded_url (take n (drop j ?t))))"
    if "url_match ?t = Some u" for u
  proof -
    from url_match_Some[OF that] obtain k where k: "k < length ?t"
      "match_here (drop k ?t) = Some u" "\<forall>j<k. match_here (drop j ?t) = None" by blast
    from match_here_Some[OF k(2)] have e: "embedded_url u"
      and t: "take (length u) (drop k ?t) = u"
      and m: "length u < length (drop k ?t) \<longrightarrow> \<not> url_char (drop k ?t ! length u)" by auto
    have m': "k + length u < length ?t \<longrightarrow> \<not> url_char (?t ! (k + length u))"
      using m by auto
    have "\<forall>j<k. \<forall>n. \<not> embedded_url (take n (drop j ?t))"
      using k(3) match_here_None by blast
    with e t m' k(1) show ?thesis by blast
  qed
  have c: "\<forall>j n. \<not> embedded_url (take n (drop j ?t))" if "url_match ?t = None"
    using url_match_None[OF that] match_here_None by blast
  show ?thesis
  proof (intro conjI impI)
    show "\<forall>i' c'. hyperlinkKey i c = hyperlinkKey i' c' \<longrightarrow> i = i' \<and> c = c'"
      using hyperlinkKey_inj by blast
  next
    show "\<forall>h. hl (hyperlinkKey i c) = Some h \<and> h \<noteq> [] \<longrightarrow> extractUrl ts hl i c v = Some h"
      by (rule a)
  next
    assume "hl (hyperlinkKey i c) = None \<or> hl (hyperlinkKey i c) = Some []"
      and "startsWith ?t (lit ''http://'') \<or> startsWith ?t (lit ''https://'')"
    then show "extractUrl ts hl i c (Str s) = Some ?t" by (simp add: extractUrl_text)
  next
    assume o: "hl (hyperlinkKey i c) = None \<or> hl (hyperlinkKey i c) = Some []"
      and n: "\<not> (startsWith ?t (lit ''http://'') \<or> startsWith ?t (lit ''https://''))"
    from o n have e: "extractUrl ts hl i c (Str s) = url_match ?t" by (simp add: extractUrl_text)
    show "\<forall>u. extractUrl ts hl i c (Str s) = Some u \<longrightarrow>
            embedded_url u \<and>
            (\<exists>k<length ?t.
               take (length u) (drop k ?t) = u \<and>
               (k + length u < length ?t \<longrightarrow> \<not> url_char (?t ! (k + length u))) \<and>
               (\<forall>j<k. \<forall>n. \<not> embedded_url (take n (drop j ?t))))"
      unfolding e using b by blast
  next
    assume o: "hl (hyperlinkKey i c) = None \<or> hl (hyperlinkKey i c) = Some []"
      and n: "\<not> (startsWith ?t (lit ''http://'') \<or> startsWith ?t (lit ''https://''))"
      and x: "extractUrl ts hl i c (Str s) = None"
    from o n have e: "extractUrl ts hl i c (Str s) = url_match ?t" by (simp add: extractUrl_text)
    with x c show "\<forall>j n. \<not> embedded_url (take n (drop j ?t))" by simp
  qed
qed

text \<open>
  Claim C4. The overlay is one that the reader builds from the grid, which is what the
  normalizer is called with. Its keys identify the cell: different (row, column) pairs
  have different keys. If the overlay has an entry for the cell, the extracted URL is that
  entry, whatever the cell holds. Otherwise, for a cell text \<open>s\<close>: if the trimmed text
  starts with \<open>http://\<close> or \<open>https://\<close> the result is the trimmed text; if not, a
  result \<open>u\<close> is an embedded URL of the trimmed text, the first one (none starts at an
  earlier position), taken as far as it extends; and the result is absent only when the
  trimmed text has no embedded URL at all.
\<close>

theorem extractUrl_resolution:
  assumes "readSheetData w = (Inr (rows, hl), w1)"
  shows
  "(\<forall>i' c'. hyperlinkKey i c = hyperlinkKey i' c' \<longrightarrow> i = i' \<and> c = c') \<and>
   (\<forall>h. hl (hyperlinkKey i c) = Some h \<longrightarrow> extractUrl ts hl i c v = Some h) \<and>
   (hl (hyperlinkKey i c) = None \<longrightarrow>
      (startsWith (trim s) (lit ''http://'') \<or> startsWith (trim s) (lit ''https://'') \<longrightarrow>
         extractUrl ts hl i c (Str s) = Some (trim s)) \<and>
      (\<not> (startsWith (trim s) (lit ''http://'') \<or> startsWith (trim s) (lit ''https://'')) \<longrightarrow>
         (\<forall>u. extractUrl ts hl i c (Str s) = Some u \<longrightarrow>
            embedded_url u \<and>
            (\<exists>k<length (trim s).
               take (length u) (drop k (trim s)) = u \<and>
               (k + length u < length (trim s) \<longrightarrow> \<not> url_char (trim s ! (k + length u))) \<and>
               (\<forall>j<k. \<forall>n. \<not> embedded_url (take n (drop j (trim s)))))) \<and>
         (extractUrl ts hl i c (Str s) = None \<longrightarrow>
            (\<forall>j n. \<not> embedded_url (take n (drop j (trim s)))))))"
proof -
  note g = extractUrl_cases[of i c hl ts v s]
  have ne: "hl (hyperlinkKey i c) \<noteq> Some []"
    using readSheetData_overlay_nonempty[OF assms] .
  have a: "\<forall>h. hl (hyperlinkKey i c) = Some h \<longrightarrow> extractUrl ts hl i c v = Some h"
  proof (intro allI impI)
    fix h assume h: "hl (hyperlinkKey i c) = Some h"
    with ne have "h \<noteq> []" by auto
    with h g show "extractUrl ts hl i c v = Some h" by blast
  qed
  from g a show ?thesis by blast
qed

theorem extractUrl_resolution_witness:
  "readSheetData link_world =
     (Inr (scenario_rows, link_overlay), link_world\<lparr>calls := [ReadValues, ReadGrid]\<rparr>) \<and>
   link_overlay (hyperlinkKey 0 6) = Some (lit ''https://cdn.example/x.jpg'') \<and>
   extractUrl no_numbers link_overlay 0 6 (Str (lit ''photo''))
     = Some (lit ''https://cdn.example/x.jpg'') \<and>
   readSheetData demo_world =
     (Inr (scenario_rows, Map.empty), demo_world\<lparr>calls := [ReadValues, ReadGrid]\<rparr>) \<and>
   Map.empty (hyperlinkKey 0 6) = (None :: jstring option) \<and>
   extractUrl no_numbers Map.empty 0 6 (Str (lit ''  http://a.b/c.png ''))
     = Some (lit ''http://a.b/c.png'') \<and>
   extractUrl no_numbers Map.empty 0 6 (Str (lit ''see https://example.com/img.jpg for details''))
     = Some (lit ''https://example.com/img.jpg'') \<and>
   embedded_url (lit ''https://example.com/img.jpg'') \<and>
   extractUrl no_numbers Map.empty 0 6 (Str (lit ''not a url'')) = None"
proof -
  have k: "link_overlay (hyperlinkKey 0 6) = Some (lit ''https://cdn.example/x.jpg'')"
    by (simp add: link_overlay_def hyperlinkKey_def decimal_digit lit_def)
  from extractUrl_resolution[OF link_read, of 0 6 no_numbers "Str (lit ''photo'')" "[]"] k
  have a: "extractUrl no_numbers link_overlay 0 6 (Str (lit ''photo''))
             = Some (lit ''https://cdn.example/x.jpg'')" by blast
  have b: "extractUrl no_numbers Map.empty 0 6 (Str (lit ''  http://a.b/c.png ''))
             = Some (lit ''http://a.b/c.png'')"
    by (simp add: js_eval decimal_digit)
  have c: "extractUrl no_numbers Map.empty 0 6
             (Str (lit ''see https://example.com/img.jpg for details''))
             = Some (lit ''https://example.com/img.jpg'')"
    by (simp add: js_eval decimal_digit)
  have t: "trim (lit ''see https://example.com/img.jpg for details'')
             = lit ''see https://example.com/img.jpg for details''"
    by (simp add: js_eval)
  have n: "\<not> (startsWith (lit ''see https://example.com/img.jpg for details'') (lit ''http://'') \<or>
               startsWith (lit ''see https://example.com/img.jpg for details'') (lit ''https://''))"
    by (simp add: js_eval)
  have m: "Map.empty (hyperlinkKey 0 6) = (None :: jstring option)" by simp
  from extractUrl_resolution[OF demo_read, of 0 6 no_numbers Undefined
         "lit ''see https://example.com/img.jpg for details''"] c n m
  have d: "embedded_url (lit ''https://example.com/img.jpg'')"
    unfolding t by blast
  have e: "extractUrl no_numbers Map.empty 0 6 (Str (lit ''not a url'')) = None"
    by (simp add: js_eval decimal_digit)
  from link_read k a demo_read m b c d e show ?thesis by blast
qed

text \<open>
  Claim C7 as stated (a present image URL starts with \<open>http://\<close> or \<open>https://\<close>) fails:
  an overlay entry is copied unchanged, whatever its scheme.
\<close>

theorem image_url_scheme_counterexample:
  "processProducts no_numbers [vase_row] mailto_overlay = Inr [mailto_record] \<and>
   image_url_1 mailto_record = Some (lit ''mailto:shop@example.com'') \<and>
   \<not> startsWith (lit ''mailto:shop@example.com'') (lit ''http://'') \<and>
   \<not> startsWith (lit ''mailto:shop@example.com'') (lit ''https://'')"
  by (simp add: js_eval vase_row_def mailto_overlay_def mailto_record_def decimal_digit)

text \<open>
  Claim C7, amended. Every record of the output comes from a row \<open>i\<close>, and each of its
  image URLs is resolved for that row and its column (6 or 7): where the overlay has a
  non-empty entry for the cell the URL is that entry, unchanged; where it has none, the
  URL, if present, starts with \<open>http://\<close> or \<open>https://\<close>.
\<close>

theorem image_url_scheme_amended:
  assumes "processProducts ts rows hl = Inr ps"
  shows "\<forall>p\<in>set ps. \<exists>i<length rows.
           processRow ts hl i (rows ! i) = Inr (Some p) \<and>
           url_resolved hl i 6 (image_url_1 p) \<and> url_resolved hl i 7 (image_url_2 p)"
proof
  fix p assume "p \<in> set ps"
  from processProducts_member[OF assms this] obtain i where i: "i < length rows"
    and row: "processRow ts hl i (rows ! i) = Inr (Some p)" by blast
  have r: "url_resolved hl i c (extractUrl ts hl i c v)" for c v
  proof (cases "hl (hyperlinkKey i c) = None \<or> hl (hyperlinkKey i c) = Some []")
    case True
    then show ?thesis
      using extractUrl_scheme[of ts hl i c v]
      by (auto simp: url_resolved_def split: option.splits)
  next
    case False
    then obtain h where h: "hl (hyperlinkKey i c) = Some h" "h \<noteq> []" by auto
    then have "extractUrl ts hl i c v = Some h" by (rule extractUrl_overlay)
    with h show ?thesis by (simp add: url_resolved_def)
  qed
  from processRow_kept(5,6)[OF row] r
  have "url_resolved hl i 6 (image_url_1 p) \<and> url_resolved hl i 7 (image_url_2 p)" by simp
  with i row show "\<exists>i<length rows. processRow ts hl i (rows ! i) = Inr (Some p) \<and>
           url_resolved hl i 6 (image_url_1 p) \<and> url_resolved hl i 7 (image_url_2 p)" by blast
qed

theorem image_url_scheme_amended_witness:
  "processProducts no_numbers [vase_row] mailto_overlay = Inr [mailto_record] \<and>
   (\<exists>i<length [vase_row].
      processRow no_numbers mailto_overlay i ([vase_row] ! i) = Inr (Some mailto_record) \<and>
      url_resolved mailto_overlay i 6 (image_url_1 mailto_record) \<and>
      url_resolved mailto_overlay i 7 (image_url_2 mailto_record)) \<and>
   mailto_overlay (hyperlinkKey 0 6) = image_url_1 mailto_record"
proof -
  have h: "processProducts no_numbers [vase_row] mailto_overlay = Inr [mailto_record]"
    by (simp add: js_eval vase_row_def mailto_overlay_def mailto_record_def decimal_digit)
  have k: "mailto_overlay (hyperlinkKey 0 6) = image_url_1 mailto_record"
    by (simp add: mailto_overlay_def mailto_record_def hyperlinkKey_def decimal_digit lit_def)
  from image_url_scheme_amended[OF h] h k show ?thesis by simp
qed

subsection \<open>Claims C2, C10 and C5: the sync run and the handler\<close>

text \<open>
  Claim C2. After a complete sync run (the handler answers 200), over any table contents
  before the run: the table holds exactly the records the normalizer produced from the
  sheet that was read, in order, and as many rows as the count reported. The calls made
  are the two reads, the fetch of the identifiers, then no delete if the table was empty
  and otherwise one delete of all fetched identifiers, and only then the inserts, one per
  chunk of at most 100 records, the chunks making up the output.
\<close>

theorem replace_all:
  assumes "POST ts request w = (resp, w')" and "status resp = 200"
  shows "\<exists>rows hl ps w1.
           readSheetData w = (Inr (rows, hl), w1) \<and>
           processProducts ts rows hl = Inr ps \<and>
           map snd (table w') = ps \<and> length (table w') = length ps \<and>
           body resp = Success_count (length ps) \<and>
           calls w' = calls w @ [ReadValues, ReadGrid, SelectIds] @
             (if table w = [] then [] else [DeleteIn (map fst (table w))]) @
             map Insert (batches ps 0) \<and>
           concat (batches ps 0) = ps \<and>
           (\<forall>b\<in>set (batches ps 0). b \<noteq> [] \<and> length b \<le> 100)"
proof -
  from POST_200[OF assms] obtain n where s: "POST_sync ts w = (Inr n, w')"
    and b: "body resp = Success_count n" by blast
  from POST_sync_ok[OF s] obtain rows hl ps w1 where
    r: "readSheetData w = (Inr (rows, hl), w1)" and
    p: "processProducts ts rows hl = Inr ps" and n: "n = length ps" and
    t: "map snd (table w') = ps" and
    c: "calls w' = calls w @ [ReadValues, ReadGrid, SelectIds] @
          (if table w = [] then [] else [DeleteIn (map fst (table w))]) @
          map Insert (batches ps 0)" by blast
  from t have "length (map snd (table w')) = length ps" by simp
  then have l: "length (table w') = length ps" by simp
  have cc: "concat (batches ps 0) = ps" by (simp add: batches_concat)
  have sz: "\<forall>b\<in>set (batches ps 0). b \<noteq> [] \<and> length b \<le> 100"
    using batches_sizes by blast
  from r p t l b n c cc sz show ?thesis by blast
qed

theorem replace_all_witness:
  "POST no_numbers authorized_request demo_world =
     (\<lparr>status = 200, body = Success_count 1\<rparr>,
      demo_world\<lparr>table := [(8, vase_a)], next_id := 9,
                 calls := [ReadValues, ReadGrid, SelectIds, DeleteIn [7], Insert [vase_a]]\<rparr>) \<and>
   table demo_world = [(7, discount_record)] \<and>
   (\<exists>rows hl ps w1.
      readSheetData demo_world = (Inr (rows, hl), w1) \<and>
      processProducts no_numbers rows hl = Inr ps \<and>
      map snd [(8 :: nat, vase_a)] = ps \<and> length [(8 :: nat, vase_a)] = length ps \<and>
      Success_count 1 = Success_count (length ps))"
proof -
  let ?w' = "demo_world\<lparr>table := [(8, vase_a)], next_id := 9,
                calls := [ReadValues, ReadGrid, SelectIds, DeleteIn [7], Insert [vase_a]]\<rparr>"
  have t: "table demo_world = [(7, discount_record)]" by (simp add: demo_world_def)
  have st: "status \<lparr>status = 200, body = Success_count 1\<rparr> = 200" by simp
  from replace_all[OF demo_run st] obtain rows hl ps w1 where
    f: "readSheetData demo_world = (Inr (rows, hl), w1)"
       "processProducts no_numbers rows hl = Inr ps"
       "map snd (table ?w') = ps" "length (table ?w') = length ps"
       "body \<lparr>status = 200, body = Success_count 1\<rparr> = Success_count (length ps)"
    by blast
  from f(3,4,5) have g: "map snd [(8 :: nat, vase_a)] = ps"
    "length [(8 :: nat, vase_a)] = length ps" "Success_count 1 = Success_count (length ps)"
    by simp_all
  from f(1,2) g have "\<exists>rows hl ps w1.
      readSheetData demo_world = (Inr (rows, hl), w1) \<and>
      processProducts no_numbers rows hl = Inr ps \<and>
      map snd [(8 :: nat, vase_a)] = ps \<and> length [(8 :: nat, vase_a)] = length ps \<and>
      Success_count 1 = Success_count (length ps)" by blast
  with demo_run t show ?thesis by blast
qed

text \<open>
  Claim C10. When the server is configured, the database client is created, the reads
  succeed and the normalizer outputs no record (every row discarded, or no row read), an
  authorized sync still fetches the identifiers and deletes all existing products; once
  that deletion has succeeded the run makes no insert call and completes with status 200
  and count 0, leaving the table empty. The deletion succeeds whenever no database call
  answers with an error.
\<close>

theorem empty_output_sync:
  assumes "SYNC_SECRET_KEY w = Some k" and "k \<noteq> []"
    and "authorization request = Some (lit ''Bearer '' @ k)"
    and "is_set (GOOGLE_SHEET_ID w)"
    and "NEXT_PUBLIC_SUPABASE_URL w = Some supabaseUrl" and "supabaseUrl \<noteq> []"
    and "SUPABASE_SERVICE_ROLE_KEY w = Some supabaseKey" and "supabaseKey \<noteq> []"
    and "createClient w supabaseUrl supabaseKey = Inr supabase"
    and "initializeSheetsAPI w = Inr sheets"
    and "readSheetData w = (Inr (rows, hl), w1)" and "processProducts ts rows hl = Inr []"
  shows "(\<forall>u w2. deleteAllProducts w1 = (Inr u, w2) \<longrightarrow>
            POST ts request w = (\<lparr>status = 200, body = Success_count 0\<rparr>, w2) \<and>
            table w2 = [] \<and>
            calls w2 = calls w @ [ReadValues, ReadGrid, SelectIds] @
              (if table w = [] then [] else [DeleteIn (map fst (table w))])) \<and>
         (no_faults w \<longrightarrow> (\<exists>w2. deleteAllProducts w1 = (Inr (), w2)))"
proof -
  from readSheetData_ok[OF assms(11)] have w1: "table w1 = table w"
    "calls w1 = calls w @ [ReadValues, ReadGrid]" "no_faults w1 = no_faults w" by simp_all
  have a: "POST ts request w = (\<lparr>status = 200, body = Success_count 0\<rparr>, w2) \<and>
           table w2 = [] \<and>
           calls w2 = calls w @ [ReadValues, ReadGrid, SelectIds] @
             (if table w = [] then [] else [DeleteIn (map fst (table w))])"
    if d: "deleteAllProducts w1 = (Inr u, w2)" for u w2
  proof -
    have "insertProducts [] w2 = (Inr (), w2)" by (simp add: insertProducts_def)
    with assms(4-12) d have "POST_sync ts w = (Inr 0, w2)"
      by (simp add: POST_sync_def is_set_def)
    with POST_authorized[OF assms(1-3), of ts]
    have "POST ts request w = (\<lparr>status = 200, body = Success_count 0\<rparr>, w2)" by simp
    with deleteAllProducts_ok[OF d] w1 show ?thesis by simp
  qed
  have b: "\<exists>w2. deleteAllProducts w1 = (Inr (), w2)" if "no_faults w"
    using deleteAllProducts_no_faults[of w1] that w1(3) by blast
  from a b show ?thesis by blast
qed

theorem empty_output_sync_witness:
  "SYNC_SECRET_KEY empty_sheet_world = Some (lit ''s3cret'') \<and>
   authorization authorized_request = Some (lit ''Bearer '' @ lit ''s3cret'') \<and>
   NEXT_PUBLIC_SUPABASE_URL empty_sheet_world = Some (lit ''https://db.example'') \<and>
   SUPABASE_SERVICE_ROLE_KEY empty_sheet_world = Some (lit ''service-key'') \<and>
   createClient empty_sheet_world (lit ''https://db.example'') (lit ''service-key'') = Inr () \<and>
   initializeSheetsAPI empty_sheet_world = Inr () \<and>
   readSheetData empty_sheet_world =
     (Inr ([], Map.empty), empty_sheet_world\<lparr>calls := [ReadValues, ReadGrid]\<rparr>) \<and>
   processProducts no_numbers [] Map.empty = Inr [] \<and>
   no_faults empty_sheet_world \<and>
   table empty_sheet_world = [(7, discount_record)] \<and>
   deleteAllProducts (empty_sheet_world\<lparr>calls := [ReadValues, ReadGrid]\<rparr>) =
     (Inr (), empty_sheet_world\<lparr>table := [],
                                  calls := [ReadValues, ReadGrid, SelectIds, DeleteIn [7]]\<rparr>) \<and>
   POST no_numbers authorized_request empty_sheet_world =
     (\<lparr>status = 200, body = Success_count 0\<rparr>,
      empty_sheet_world\<lparr>table := [],
                         calls := [ReadValues, ReadGrid, SelectIds, DeleteIn [7]]\<rparr>)"
proof -
  have k: "SYNC_SECRET_KEY empty_sheet_world = Some (lit ''s3cret'')"
    and ne: "lit ''s3cret'' \<noteq> []"
    and a: "authorization authorized_request = Some (lit ''Bearer '' @ lit ''s3cret'')"
    and e: "is_set (GOOGLE_SHEET_ID empty_sheet_world)"
      "NEXT_PUBLIC_SUPABASE_URL empty_sheet_world = Some (lit ''https://db.example'')"
      "lit ''https://db.example'' \<noteq> []"
      "SUPABASE_SERVICE_ROLE_KEY empty_sheet_world = Some (lit ''service-key'')"
      "lit ''service-key'' \<noteq> []"
      "createClient empty_sheet_world (lit ''https://db.example'') (lit ''service-key'') = Inr ()"
      "initializeSheetsAPI empty_sheet_world = Inr ()"
    and t: "table empty_sheet_world = [(7, discount_record)]"
    and nf: "no_faults empty_sheet_world"
    by (simp_all add: empty_sheet_world_def demo_world_def authorized_request_def is_set_def
                      createClient_def strict_client_def startsWith_def
                      initializeSheetsAPI_def no_faults_def lit_def)
  have r: "readSheetData empty_sheet_world =
     (Inr ([], Map.empty), empty_sheet_world\<lparr>calls := [ReadValues, ReadGrid]\<rparr>)"
    by (simp add: readSheetData_def empty_sheet_world_def demo_world_def)
  have p: "processProducts no_numbers [] Map.empty = Inr []" by (simp add: processProducts_def)
  have d: "deleteAllProducts (empty_sheet_world\<lparr>calls := [ReadValues, ReadGrid]\<rparr>) =
     (Inr (), empty_sheet_world\<lparr>table := [],
                                  calls := [ReadValues, ReadGrid, SelectIds, DeleteIn [7]]\<rparr>)"
    by (simp add: deleteAllProducts_def next_fault_def empty_sheet_world_def demo_world_def)
  from empty_output_sync[OF k ne a e r p] d
  have "POST no_numbers authorized_request empty_sheet_world =
     (\<lparr>status = 200, body = Success_count 0\<rparr>,
      empty_sheet_world\<lparr>table := [],
                         calls := [ReadValues, ReadGrid, SelectIds, DeleteIn [7]]\<rparr>)" by blast
  with k a e(2,4,6,7) r p nf t d show ?thesis by blast
qed

text \<open>
  Claim C5 as stated (a request without an Authorization header is always answered 401)
  fails on a server whose secret is not configured: the handler checks the configuration
  first and answers 500.
\<close>

theorem unconfigured_secret_counterexample:
  "authorization anonymous_request = None \<and>
   POST no_numbers anonymous_request unconfigured_world =
     (\<lparr>status = 500, body = Failure_error (Message (lit ''Server configuration error''))\<rparr>,
      unconfigured_world)"
  by (simp add: unconfigured_run) (simp add: anonymous_request_def)

text \<open>
  Claim C5, amended. On a server whose secret is configured (not empty): a request with
  no Authorization header, with a header that does not start with \<open>Bearer \<close>, or whose
  token differs from the secret is answered 401 with the error \<open>Unauthorized\<close>, and the
  world is left as it was, so nothing was read, deleted or inserted. A request whose token
  is the secret and for which the pipeline completes with count \<open>n\<close> is answered 200 with
  that count, which is the number of records the normalizer produced from the sheet read.
\<close>

theorem POST_authorization:
  assumes "SYNC_SECRET_KEY w = Some k" and "k \<noteq> []"
  shows "(authorization request = None \<or>
          (\<exists>h. authorization request = Some h \<and>
                (\<not> startsWith h (lit ''Bearer '') \<or> drop 7 h \<noteq> k)) \<longrightarrow>
            POST ts request w = (unauthorized, w)) \<and>
         status unauthorized = 401 \<and>
         body unauthorized = Failure_error (Message (lit ''Unauthorized'')) \<and>
         (authorization request = Some (lit ''Bearer '' @ k) \<longrightarrow>
            (\<forall>n w'. POST_sync ts w = (Inr n, w') \<longrightarrow>
               POST ts request w = (\<lparr>status = 200, body = Success_count n\<rparr>, w') \<and>
               (\<exists>rows hl ps w1.
                  readSheetData w = (Inr (rows, hl), w1) \<and>
                  processProducts ts rows hl = Inr ps \<and> n = length ps)))"
proof -
  have a: "authorization request = None \<or>
          (\<exists>h. authorization request = Some h \<and>
                (\<not> startsWith h (lit ''Bearer '') \<or> drop 7 h \<noteq> k)) \<longrightarrow>
            POST ts request w = (unauthorized, w)"
    using POST_unauthorized[OF assms] by blast
  have b: "POST ts request w = (\<lparr>status = 200, body = Success_count n\<rparr>, w') \<and>
           (\<exists>rows hl ps w1.
              readSheetData w = (Inr (rows, hl), w1) \<and>
              processProducts ts rows hl = Inr ps \<and> n = length ps)"
    if h: "authorization request = Some (lit ''Bearer '' @ k)"
      and s: "POST_sync ts w = (Inr n, w')" for n w'
  proof -
    have "POST ts request w = (\<lparr>status = 200, body = Success_count n\<rparr>, w')"
      using POST_authorized[OF assms h, of ts] s by simp
    moreover from POST_sync_ok[OF s] have "\<exists>rows hl ps w1.
              readSheetData w = (Inr (rows, hl), w1) \<and>
              processProducts ts rows hl = Inr ps \<and> n = length ps" by blast
    ultimately show ?thesis by blast
  qed
  from a b unauthorized_fields show ?thesis by blast
qed

theorem POST_authorization_witness:
  "SYNC_SECRET_KEY demo_world = Some (lit ''s3cret'') \<and>
   authorization anonymous_request = None \<and>
   POST no_numbers anonymous_request demo_world = (unauthorized, demo_world) \<and>
   authorization wrong_token_request = Some (lit ''Bearer guess'') \<and>
   drop 7 (lit ''Bearer guess'') \<noteq> lit ''s3cret'' \<and>
   POST no_numbers wrong_token_request demo_world = (unauthorized, demo_world) \<and>
   calls (snd (POST no_numbers wrong_token_request demo_world)) = [] \<and>
   authorization authorized_request = Some (lit ''Bearer '' @ lit ''s3cret'') \<and>
   fst (POST no_numbers authorized_request demo_world)
     = \<lparr>status = 200, body = Success_count 1\<rparr> \<and>
   processProducts no_numbers scenario_rows Map.empty = Inr [vase_a]"
proof -
  have k: "SYNC_SECRET_KEY demo_world = Some (lit ''s3cret'')"
    and ne: "lit ''s3cret'' \<noteq> []"
    and c: "calls demo_world = []"
    by (simp_all add: demo_world_def lit_def)
  note t = POST_authorization[OF k ne, of _ no_numbers]
  have a1: "authorization anonymous_request = None" by (simp add: anonymous_request_def)
  have a2: "authorization wrong_token_request = Some (lit ''Bearer guess'')"
    by (simp add: wrong_token_request_def)
  have a3: "drop 7 (lit ''Bearer guess'') \<noteq> lit ''s3cret''" by (simp add: lit_def)
  have a4: "authorization authorized_request = Some (lit ''Bearer '' @ lit ''s3cret'')"
    by (simp add: authorized_request_def lit_def)
  from t[of anonymous_request] a1
  have r1: "POST no_numbers anonymous_request demo_world = (unauthorized, demo_world)" by blast
  from t[of wrong_token_request] a2 a3
  have r2: "POST no_numbers wrong_token_request demo_world = (unauthorized, demo_world)" by blast
  from r2 c have r3: "calls (snd (POST no_numbers wrong_token_request demo_world)) = []" by simp
  have r4: "fst (POST no_numbers authorized_request demo_world)
              = \<lparr>status = 200, body = Success_count 1\<rparr>"
    by (simp add: demo_run)
  from k a1 r1 a2 a3 r2 r3 a4 r4 scenario_output show ?thesis by blast
qed


end
